theory Spec2Isabelle
  imports Complex_Main
begin

section \<open>Pepper scattering: the soft-body lattice of simulation.js\<close>

text \<open>
  The embedding follows \<^verbatim>\<open>src/simulation.js\<close>. JavaScript numbers are modelled as
  \<^typ>\<open>real\<close>: sums, products and comparisons are the exact ones, \<^verbatim>\<open>Math.hypot\<close>,
  \<^verbatim>\<open>Math.sqrt\<close>, \<^verbatim>\<open>Math.exp\<close> and \<^verbatim>\<open>Math.log\<close> are the real functions, and rounding,
  infinities and NaN are outside the model. The counters of the configuration
  (grid size, iteration count, break cap) are integers.

  The source keeps object references from a constraint to its two particles. All of them
  point into the array \<^verbatim>\<open>particles\<close> (\<^verbatim>\<open>particleAt(i, j) = particles[j * cols + i]\<close>), so
  the store is the particle list and a reference is an index into it; the fields
  \<^verbatim>\<open>a\<close> and \<^verbatim>\<open>b\<close> of a constraint are called \<open>a_ref\<close> and \<open>b_ref\<close> here, the fields
  \<^verbatim>\<open>x\<close> and \<^verbatim>\<open>y\<close> of a pulse \<open>pulse_x\<close> and \<open>pulse_y\<close>. Methods that mutate particles
  take the store and return the new one, assignment by assignment in the source's order.

  \<^verbatim>\<open>Math.random()\<close> and \<^verbatim>\<open>performance.now()\<close> are inputs: a function \<open>rnd\<close> that
  gives the successive random draws, and the timestamps read by a step.
\<close>

subsection \<open>Configuration\<close>

record settings =
  gridCols :: int
  gridRows :: int
  constraintIterations :: int
  structuralStiffness :: real
  shearStiffness :: real
  damping :: real
  jitterAcceleration :: real
  gravityY :: real
  pulseStrength :: real
  pulseSigma :: real
  pulseHalfLifeMs :: real
  borderPadding :: real
  pepperRadius :: real
  breakThreshold :: real
  minWeakThreshold :: real
  clickTearRadius :: real
  clickInnerBreakRadius :: real
  weakenFactor :: real
  weakenDurationMs :: real
  tearImpulse :: real
  maxBreaksPerStep :: int

definition SETTINGS :: settings where
  "SETTINGS = \<lparr>
     gridCols = 52,
     gridRows = 34,
     constraintIterations = 3,
     structuralStiffness = 0.35,
     shearStiffness = 0.25,
     damping = 0.0035,
     jitterAcceleration = 3.0,
     gravityY = 0.0,
     pulseStrength = 3000,
     pulseSigma = 90,
     pulseHalfLifeMs = 650,
     borderPadding = 24,
     pepperRadius = 1.9,
     breakThreshold = 1.8,
     minWeakThreshold = 1.18,
     clickTearRadius = 60,
     clickInnerBreakRadius = 24,
     weakenFactor = 0.85,
     weakenDurationMs = 450,
     tearImpulse = 36,
     maxBreaksPerStep = 200 \<rparr>"

subsection \<open>Utility helpers\<close>

definition clamp :: "real \<Rightarrow> real \<Rightarrow> real \<Rightarrow> real" where
  "clamp v lo hi = (if v < lo then lo else if v > hi then hi else v)"

text \<open>\<^verbatim>\<open>randRange(lo, hi)\<close>, with the value \<open>u\<close> that \<^verbatim>\<open>Math.random()\<close> returned.\<close>

definition randRange :: "real \<Rightarrow> real \<Rightarrow> real \<Rightarrow> real" where
  "randRange lo hi u = lo + u * (hi - lo)"

definition hypot :: "real \<Rightarrow> real \<Rightarrow> real" where
  "hypot dx dy = sqrt (dx * dx + dy * dy)"

text \<open>\<^verbatim>\<open>v || 1e-6\<close> on a number: the right operand replaces a zero.\<close>

definition orEps :: "real \<Rightarrow> real" where
  "orEps v = (if v = 0 then 0.000001 else v)"

subsection \<open>Particles\<close>

record particle =
  positionX :: real
  positionY :: real
  previousX :: real
  previousY :: real
  accelX :: real
  accelY :: real
  pinned :: bool

text \<open>The constructor draws two random numbers, \<open>u1\<close> then \<open>u2\<close>.\<close>

definition Particle :: "real \<Rightarrow> real \<Rightarrow> bool \<Rightarrow> real \<Rightarrow> real \<Rightarrow> particle" where
  "Particle x y pin u1 u2 = \<lparr>
     positionX = x,
     positionY = y,
     previousX = x + randRange (- 0.25) 0.25 u1,
     previousY = y + randRange (- 0.25) 0.25 u2,
     accelX = 0,
     accelY = 0,
     pinned = pin \<rparr>"

definition addForce :: "real \<Rightarrow> real \<Rightarrow> particle \<Rightarrow> particle" where
  "addForce ax ay p = p\<lparr>accelX := accelX p + ax, accelY := accelY p + ay\<rparr>"

definition verletStep :: "real \<Rightarrow> real \<Rightarrow> particle \<Rightarrow> particle" where
  "verletStep dtSeconds dmp p =
     (if pinned p then
        p\<lparr>previousX := positionX p, previousY := positionY p, accelX := 0, accelY := 0\<rparr>
      else
        let nextX = positionX p + (positionX p - previousX p) * (1 - dmp)
                      + accelX p * dtSeconds * dtSeconds;
            nextY = positionY p + (positionY p - previousY p) * (1 - dmp)
                      + accelY p * dtSeconds * dtSeconds
        in p\<lparr>previousX := positionX p, previousY := positionY p,
              positionX := nextX, positionY := nextY, accelX := 0, accelY := 0\<rparr>)"

subsection \<open>Distance constraints\<close>

record constraint =
  a_ref :: nat
  b_ref :: nat
  rest :: real
  stiffness :: real
  breakThresholdBase :: real
  weakUntilTs :: real
  weakThreshold :: "real option"
  broken :: bool

definition DistanceConstraint :: "settings \<Rightarrow> nat \<Rightarrow> nat \<Rightarrow> real \<Rightarrow> real \<Rightarrow> constraint" where
  "DistanceConstraint S particleA particleB restLength stiff = \<lparr>
     a_ref = particleA,
     b_ref = particleB,
     rest = restLength,
     stiffness = stiff,
     breakThresholdBase = breakThreshold S,
     weakUntilTs = 0,
     weakThreshold = None,
     broken = False \<rparr>"

definition getCurrentBreakThreshold :: "real \<Rightarrow> constraint \<Rightarrow> real" where
  "getCurrentBreakThreshold nowTs c =
     (case weakThreshold c of
        Some w \<Rightarrow> if nowTs \<le> weakUntilTs c then w else breakThresholdBase c
      | None \<Rightarrow> breakThresholdBase c)"

definition markWeak :: "settings \<Rightarrow> real \<Rightarrow> real \<Rightarrow> constraint \<Rightarrow> constraint" where
  "markWeak S tempThreshold untilTs c =
     (let clamped = max tempThreshold (minWeakThreshold S);
          c1 = (case weakThreshold c of
                  None \<Rightarrow> c\<lparr>weakThreshold := Some clamped\<rparr>
                | Some w \<Rightarrow> if clamped < w then c\<lparr>weakThreshold := Some clamped\<rparr> else c)
      in c1\<lparr>weakUntilTs := max (weakUntilTs c1) untilTs\<rparr>)"

definition midpoint :: "particle list \<Rightarrow> constraint \<Rightarrow> real \<times> real" where
  "midpoint ps c =
     ((positionX (ps ! a_ref c) + positionX (ps ! b_ref c)) * 0.5,
      (positionY (ps ! a_ref c) + positionY (ps ! b_ref c)) * 0.5)"

text \<open>
  \<open>addPos i vx vy\<close> is \<^verbatim>\<open>p.positionX += vx; p.positionY += vy\<close> on the particle at
  index \<open>i\<close>, and \<open>subPos\<close> the same with \<^verbatim>\<open>-=\<close>. Each reads the store as the
  assignments before it left it, so a constraint whose two references are the same
  particle behaves as in the source.
\<close>

definition addPos :: "nat \<Rightarrow> real \<Rightarrow> real \<Rightarrow> particle list \<Rightarrow> particle list" where
  "addPos i vx vy ps =
     ps[i := (ps ! i)\<lparr>positionX := positionX (ps ! i) + vx,
                      positionY := positionY (ps ! i) + vy\<rparr>]"

definition subPos :: "nat \<Rightarrow> real \<Rightarrow> real \<Rightarrow> particle list \<Rightarrow> particle list" where
  "subPos i vx vy ps =
     ps[i := (ps ! i)\<lparr>positionX := positionX (ps ! i) - vx,
                      positionY := positionY (ps ! i) - vy\<rparr>]"

definition forceBreak :: "settings \<Rightarrow> particle list \<Rightarrow> constraint \<Rightarrow> particle list \<times> constraint" where
  "forceBreak S ps c =
     (if broken c then (ps, c)
      else
        let c' = c\<lparr>broken := True\<rparr>;
            A = ps ! a_ref c;
            B = ps ! b_ref c;
            dx = positionX B - positionX A;
            dy = positionY B - positionY A;
            dist = orEps (hypot dx dy);
            nx = dx / dist;
            ny = dy / dist;
            push = tearImpulse S
        in if \<not> pinned A \<and> \<not> pinned B then
             (addPos (b_ref c) (nx * push * 0.5) (ny * 0.5 * push)
                (subPos (a_ref c) (nx * push * 0.5) (ny * 0.5 * push) ps), c')
           else if pinned A \<and> \<not> pinned B then
             (addPos (b_ref c) (nx * push) (ny * push) ps, c')
           else if \<not> pinned A \<and> pinned B then
             (subPos (a_ref c) (nx * push) (ny * push) ps, c')
           else (ps, c'))"

text \<open>\<open>satisfy\<close> returns the method's boolean, the store and the constraint.\<close>

definition satisfy :: "settings \<Rightarrow> real \<Rightarrow> particle list \<Rightarrow> constraint \<Rightarrow> bool \<times> particle list \<times> constraint" where
  "satisfy S nowTs ps c =
     (if broken c then (False, ps, c)
      else
        let A = ps ! a_ref c;
            B = ps ! b_ref c;
            dx = positionX B - positionX A;
            dy = positionY B - positionY A;
            dist = orEps (hypot dx dy);
            threshold = getCurrentBreakThreshold nowTs c
        in if dist > rest c * threshold then
             (let (ps', c') = forceBreak S ps c in (False, ps', c'))
           else
             let diff = (dist - rest c) / dist;
                 k = stiffness c;
                 moveAX = dx * 0.5 * k * diff;
                 moveAY = dy * 0.5 * k * diff
             in if \<not> pinned A \<and> \<not> pinned B then
                  (True, subPos (b_ref c) (moveAX * 1) (moveAY * 1)
                           (addPos (a_ref c) (moveAX * 1) (moveAY * 1) ps), c)
                else if pinned A \<and> \<not> pinned B then
                  (True, subPos (b_ref c) (dx * k * diff) (dy * k * diff) ps, c)
                else if \<not> pinned A \<and> pinned B then
                  (True, addPos (a_ref c) (dx * k * diff) (dy * k * diff) ps, c)
                else (True, ps, c))"

subsection \<open>Pulses and the simulation state\<close>

record pulse =
  pulse_x :: real
  pulse_y :: real
  strength :: real
  sigma :: real
  createdAt :: real

record sim =
  particles :: "particle list"
  constraints :: "constraint list"
  pulses :: "pulse list"

text \<open>\<^verbatim>\<open>addPulse(x, y, strength)\<close> at the time \<open>now\<close> that \<^verbatim>\<open>performance.now()\<close> returns.\<close>

definition addPulse :: "settings \<Rightarrow> real \<Rightarrow> real \<Rightarrow> real \<Rightarrow> real \<Rightarrow> sim \<Rightarrow> sim" where
  "addPulse S x y str now st =
     st\<lparr>pulses := pulses st @
        [\<lparr>pulse_x = x, pulse_y = y, strength = str, sigma = pulseSigma S, createdAt = now\<rparr>]\<rparr>"

subsection \<open>One simulation step\<close>

text \<open>
  The first loop of \<^verbatim>\<open>stepSimulation\<close>: gravity and jitter on every particle that is not
  pinned. \<open>n\<close> counts the random draws made so far; each free particle takes two.
\<close>

fun applyForces :: "settings \<Rightarrow> (nat \<Rightarrow> real) \<Rightarrow> nat \<Rightarrow> particle list \<Rightarrow> particle list" where
  "applyForces S rnd n [] = []"
| "applyForces S rnd n (p # ps) =
     (if \<not> pinned p then
        (let p1 = (if gravityY S \<noteq> 0 then addForce 0 (gravityY S) p else p);
             j = jitterAcceleration S;
             p2 = addForce (randRange (- j) j (rnd n)) (randRange (- j) j (rnd (n + 1))) p1
         in p2 # applyForces S rnd (n + 2) ps)
      else p # applyForces S rnd n ps)"

text \<open>The body of the loop over the particles for one pulse.\<close>

definition pulseOnParticle :: "real \<Rightarrow> real \<Rightarrow> pulse \<Rightarrow> particle \<Rightarrow> particle" where
  "pulseOnParticle base twoSigma2 pu p =
     (if pinned p then p
      else
        let dx = positionX p - pulse_x pu;
            dy = positionY p - pulse_y pu;
            r2 = dx * dx + dy * dy;
            falloff = exp (- r2 / twoSigma2);
            r = sqrt r2 + 0.000001;
            ax = (dx / r) * base * falloff;
            ay = (dy / r) * base * falloff
        in addForce ax ay p)"

definition applyPulse :: "real \<Rightarrow> real \<Rightarrow> pulse \<Rightarrow> particle list \<Rightarrow> particle list" where
  "applyPulse decayCoef now pu ps =
     (let age = now - createdAt pu;
          decay = exp (- decayCoef * age);
          base = strength pu * decay;
          twoSigma2 = 2 * sigma pu * sigma pu
      in map (pulseOnParticle base twoSigma2 pu) ps)"

definition clampToCanvas :: "settings \<Rightarrow> real \<Rightarrow> real \<Rightarrow> particle \<Rightarrow> particle" where
  "clampToCanvas S width height p =
     p\<lparr>positionX := clamp (positionX p) (borderPadding S) (width - borderPadding S),
       positionY := clamp (positionY p) (borderPadding S) (height - borderPadding S)\<rparr>"

text \<open>The loop commented \<^verbatim>\<open>// Integrate\<close>: the Verlet step, then the bounds.\<close>

definition integrate :: "settings \<Rightarrow> real \<Rightarrow> real \<Rightarrow> real \<Rightarrow> particle list \<Rightarrow> particle list" where
  "integrate S width height dtSec ps =
     map (\<lambda>p. clampToCanvas S width height (verletStep dtSec (damping S) p)) ps"

text \<open>
  One pass over the constraint list (the inner \<^verbatim>\<open>for\<close> loop), from the position the
  loop has reached: \<open>breaks\<close> is the loop's counter, the result is the store and the
  constraints from that position on.
\<close>

fun relaxPass :: "settings \<Rightarrow> real \<Rightarrow> int \<Rightarrow> particle list \<Rightarrow> constraint list
    \<Rightarrow> particle list \<times> constraint list" where
  "relaxPass S nowTs breaks ps [] = (ps, [])"
| "relaxPass S nowTs breaks ps (c # cs) =
     (if broken c then
        (case relaxPass S nowTs breaks ps cs of (ps', cs') \<Rightarrow> (ps', c # cs'))
      else
        (case satisfy S nowTs ps c of (ok, ps1, c1) \<Rightarrow>
           if \<not> ok then
             (if breaks + 1 \<ge> maxBreaksPerStep S then (ps1, c1 # cs)
              else (case relaxPass S nowTs (breaks + 1) ps1 cs of
                      (ps', cs') \<Rightarrow> (ps', c1 # cs')))
           else (case relaxPass S nowTs breaks ps1 cs of (ps', cs') \<Rightarrow> (ps', c1 # cs'))))"

text \<open>The outer loop: \<open>n\<close> passes, each with its counter starting at zero.\<close>

fun relaxLoop :: "settings \<Rightarrow> real \<Rightarrow> nat \<Rightarrow> particle list \<Rightarrow> constraint list
    \<Rightarrow> particle list \<times> constraint list" where
  "relaxLoop S nowTs 0 ps cs = (ps, cs)"
| "relaxLoop S nowTs (Suc n) ps cs =
     (case relaxPass S nowTs 0 ps cs of (ps', cs') \<Rightarrow> relaxLoop S nowTs n ps' cs')"

text \<open>
  \<^verbatim>\<open>stepSimulation(dtMs)\<close> on a canvas of the given width and height; \<open>now\<close> and
  \<open>nowTs\<close> are the two readings of the clock.
\<close>

definition stepSimulation :: "settings \<Rightarrow> real \<Rightarrow> real \<Rightarrow> (nat \<Rightarrow> real) \<Rightarrow> real \<Rightarrow> real \<Rightarrow> real
    \<Rightarrow> sim \<Rightarrow> sim" where
  "stepSimulation S width height rnd now nowTs dtMs st =
     (let dtSec = dtMs / 1000;
          ps1 = applyForces S rnd 0 (particles st);
          halfLife = pulseHalfLifeMs S;
          decayCoef = ln 2 / halfLife;
          pus = filter (\<lambda>pu. now - createdAt pu < halfLife * 6) (pulses st);
          ps2 = foldl (\<lambda>ps pu. applyPulse decayCoef now pu ps) ps1 pus;
          ps3 = integrate S width height dtSec ps2
      in case relaxLoop S nowTs (nat (constraintIterations S)) ps3 (constraints st) of
           (ps4, cs4) \<Rightarrow>
             \<lparr>particles = ps4,
              constraints = (if length cs4 \<noteq> 0 then filter (\<lambda>c. \<not> broken c) cs4 else cs4),
              pulses = pus\<rparr>)"

subsection \<open>Building the lattice\<close>

text \<open>
  The source of \<^verbatim>\<open>buildGrid\<close> has no \<^verbatim>\<open>throw\<close> and calls nothing that throws, so the
  model has no branch that returns an error; the result type only gives the question
  whether it fails a meaning.
\<close>

datatype config_error = ConfigError string

text \<open>
  The particles in the order in which the nested \<^verbatim>\<open>for\<close> statements push them. The particle of column \<open>i\<close> and
  row \<open>j\<close> is the one pushed at index \<open>j * cols + i\<close>, and its constructor makes the
  draws \<open>2 * (j * cols + i)\<close> and the next one. Where the source divides by zero
  (one column or one row) it goes on with an infinity or a NaN, which the model does
  not have.
\<close>

definition gridParticles :: "settings \<Rightarrow> real \<Rightarrow> real \<Rightarrow> (nat \<Rightarrow> real) \<Rightarrow> particle list" where
  "gridParticles S width height rnd =
     (let pad = borderPadding S;
          gridWidth = width - pad * 2;
          gridHeight = height - pad * 2;
          cols = gridCols S;
          rows = gridRows S;
          cellW = gridWidth / real_of_int (cols - 1);
          cellH = gridHeight / real_of_int (rows - 1)
      in concat (map (\<lambda>j. map (\<lambda>i.
           let x = pad + real_of_int i * cellW;
               y = pad + real_of_int j * cellH;
               isBoundary = (i = 0 \<or> j = 0 \<or> i = cols - 1 \<or> j = rows - 1);
               n = nat (j * cols + i)
           in Particle x y isBoundary (rnd (2 * n)) (rnd (2 * n + 1))) [0..cols - 1]) [0..rows - 1]))"

definition gridConstraints :: "settings \<Rightarrow> real \<Rightarrow> real \<Rightarrow> constraint list" where
  "gridConstraints S width height =
     (let pad = borderPadding S;
          gridWidth = width - pad * 2;
          gridHeight = height - pad * 2;
          cols = gridCols S;
          rows = gridRows S;
          cellW = gridWidth / real_of_int (cols - 1);
          cellH = gridHeight / real_of_int (rows - 1);
          particleAt = (\<lambda>i j. nat (j * cols + i))
      in concat (map (\<lambda>j. concat (map (\<lambda>i.
           (if i < cols - 1 then
              [DistanceConstraint S (particleAt i j) (particleAt (i + 1) j) cellW
                 (structuralStiffness S)] else [])
           @ (if j < rows - 1 then
              [DistanceConstraint S (particleAt i j) (particleAt i (j + 1)) cellH
                 (structuralStiffness S)] else [])
           @ (if i < cols - 1 \<and> j < rows - 1 then
              [DistanceConstraint S (particleAt i j) (particleAt (i + 1) (j + 1))
                 (hypot cellW cellH) (shearStiffness S)] else [])
           @ (if i > 0 \<and> j < rows - 1 then
              [DistanceConstraint S (particleAt i j) (particleAt (i - 1) (j + 1))
                 (hypot cellW cellH) (shearStiffness S)] else []))
         [0..cols - 1])) [0..rows - 1]))"

definition buildGrid :: "settings \<Rightarrow> real \<Rightarrow> real \<Rightarrow> (nat \<Rightarrow> real) \<Rightarrow> sim \<Rightarrow> config_error + sim" where
  "buildGrid S width height rnd st =
     Inr (st\<lparr>particles := gridParticles S width height rnd,
            constraints := gridConstraints S width height\<rparr>)"

subsection \<open>Sequences of calls\<close>

text \<open>
  The calls \<^verbatim>\<open>markWeak(tempThreshold, untilTs)\<close> made on one constraint, in order.
\<close>

fun markWeakCalls :: "settings \<Rightarrow> (real \<times> real) list \<Rightarrow> constraint \<Rightarrow> constraint" where
  "markWeakCalls S [] c = c"
| "markWeakCalls S ((tempThreshold, untilTs) # calls) c =
     markWeakCalls S calls (markWeak S tempThreshold untilTs c)"

text \<open>The threshold a call proposes, raised to the configured floor.\<close>

definition clampedThreshold :: "settings \<Rightarrow> real \<times> real \<Rightarrow> real" where
  "clampedThreshold S call = max (fst call) (minWeakThreshold S)"

text \<open>
  The number of constraints that a pass newly marked broken: positions where the
  constraint was not broken before the pass and is broken after it.
\<close>

definition newBreaks :: "constraint list \<Rightarrow> constraint list \<Rightarrow> nat" where
  "newBreaks cs cs' = length (filter (\<lambda>(c, c'). \<not> broken c \<and> broken c') (zip cs cs'))"

text \<open>A random source whose every draw is one half, so that each jitter is zero.\<close>

definition midRandom :: "nat \<Rightarrow> real" where
  "midRandom n = 1 / 2"

text \<open>The distance between the two endpoints of a constraint in a store.\<close>

definition constraintDistance :: "particle list \<Rightarrow> constraint \<Rightarrow> real" where
  "constraintDistance ps c =
     hypot (positionX (ps ! b_ref c) - positionX (ps ! a_ref c))
           (positionY (ps ! b_ref c) - positionY (ps ! a_ref c))"

text \<open>
  The store with which a step enters the solver's loop: the particles after the force
  loop, the pulse loop and the integration loop of \<^verbatim>\<open>stepSimulation\<close>.
\<close>

definition relaxInput :: "settings \<Rightarrow> real \<Rightarrow> real \<Rightarrow> (nat \<Rightarrow> real) \<Rightarrow> real \<Rightarrow> real \<Rightarrow> sim
    \<Rightarrow> particle list" where
  "relaxInput S width height rnd now dtMs st =
     integrate S width height (dtMs / 1000)
       (foldl (\<lambda>ps pu. applyPulse (ln 2 / pulseHalfLifeMs S) now pu ps)
          (applyForces S rnd 0 (particles st))
          (filter (\<lambda>pu. now - createdAt pu < pulseHalfLifeMs S * 6) (pulses st)))"

text \<open>
  What happens to the simulation between two rebuilds of the lattice, on a canvas of a
  given width and height: a whole step; the integration loop of a step alone (Verlet
  step and clamps, with a time step in seconds); a Verlet step of every particle alone
  (with a time step and a damping); one pass of the solver over the constraints (at a
  timestamp); a \<^verbatim>\<open>forceBreak\<close> call on the constraint at a position of the list, as the
  solver or the pointer handler makes it; and a new pulse.
\<close>

datatype physicsOp =
    StepOp "nat \<Rightarrow> real" real real real
  | IntegrateOp real
  | VerletOp real real
  | RelaxOp real
  | BreakOp nat
  | PulseOp real real real real

fun applyOp :: "settings \<Rightarrow> real \<Rightarrow> real \<Rightarrow> physicsOp \<Rightarrow> sim \<Rightarrow> sim" where
  "applyOp S width height (StepOp rnd now nowTs dtMs) st =
     stepSimulation S width height rnd now nowTs dtMs st"
| "applyOp S width height (IntegrateOp dtSec) st =
     st\<lparr>particles := integrate S width height dtSec (particles st)\<rparr>"
| "applyOp S width height (VerletOp dtSeconds dmp) st =
     st\<lparr>particles := map (verletStep dtSeconds dmp) (particles st)\<rparr>"
| "applyOp S width height (RelaxOp nowTs) st =
     (case relaxPass S nowTs 0 (particles st) (constraints st) of
        (ps', cs') \<Rightarrow> st\<lparr>particles := ps', constraints := cs'\<rparr>)"
| "applyOp S width height (BreakOp i) st =
     (if i < length (constraints st)
      then (case forceBreak S (particles st) (constraints st ! i) of
              (ps', c') \<Rightarrow> st\<lparr>particles := ps', constraints := (constraints st)[i := c']\<rparr>)
      else st)"
| "applyOp S width height (PulseOp x y str now) st = addPulse S x y str now st"

fun applyOps :: "settings \<Rightarrow> real \<Rightarrow> real \<Rightarrow> physicsOp list \<Rightarrow> sim \<Rightarrow> sim" where
  "applyOps S width height [] st = st"
| "applyOps S width height (op # ops) st = applyOps S width height ops (applyOp S width height op st)"

section \<open>Properties\<close>


subsection \<open>Stored weakening state\<close>

lemma markWeak_weakUntilTs [simp]:
  "weakUntilTs (markWeak S t e c) = max (weakUntilTs c) e"
  by (simp add: markWeak_def Let_def split: option.splits)

lemma markWeak_weakThreshold:
  "weakThreshold (markWeak S t e c) =
     Some (case weakThreshold c of None \<Rightarrow> max t (minWeakThreshold S)
           | Some w \<Rightarrow> min w (max t (minWeakThreshold S)))"
  by (auto simp: markWeak_def Let_def split: option.splits)

lemma markWeak_other [simp]:
  "a_ref (markWeak S t e c) = a_ref c"
  "b_ref (markWeak S t e c) = b_ref c"
  "rest (markWeak S t e c) = rest c"
  "stiffness (markWeak S t e c) = stiffness c"
  "breakThresholdBase (markWeak S t e c) = breakThresholdBase c"
  "broken (markWeak S t e c) = broken c"
  by (simp_all add: markWeak_def Let_def split: option.splits)

lemma markWeakCalls_weakUntilTs:
  "weakUntilTs (markWeakCalls S calls c) = Max (insert (weakUntilTs c) (snd ` set calls))"
proof (induction calls arbitrary: c)
  case Nil
  show ?case by simp
next
  case (Cons call calls)
  obtain t e where call: "call = (t, e)" by (cases call)
  have "Max (insert (weakUntilTs c) (insert e (snd ` set calls)))
          = max (weakUntilTs c) (Max (insert e (snd ` set calls)))"
    by (rule Max_insert) simp_all
  moreover have "Max (insert (max (weakUntilTs c) e) (snd ` set calls))
          = max (weakUntilTs c) (Max (insert e (snd ` set calls)))"
    by (cases "set calls = {}") (simp_all add: max.assoc)
  ultimately show ?case
    using Cons call by simp
qed

lemma markWeakCalls_weakThreshold:
  "calls \<noteq> [] \<Longrightarrow>
   weakThreshold (markWeakCalls S calls c) =
     Some (case weakThreshold c of
             None \<Rightarrow> Min (clampedThreshold S ` set calls)
           | Some w \<Rightarrow> min w (Min (clampedThreshold S ` set calls)))"
proof (induction calls arbitrary: c)
  case Nil
  then show ?case by simp
next
  case (Cons call calls)
  obtain t e where call: "call = (t, e)" by (cases call)
  show ?case
  proof (cases "calls = []")
    case True
    with call show ?thesis
      by (simp add: markWeak_weakThreshold clampedThreshold_def split: option.splits)
  next
    case False
    have m: "Min (insert (clampedThreshold S call) (clampedThreshold S ` set calls))
          = min (clampedThreshold S call) (Min (clampedThreshold S ` set calls))"
      using False by (intro Min_insert) simp_all
    from False Cons.IH [of "markWeak S t e c"] call m show ?thesis
      by (simp add: markWeak_weakThreshold clampedThreshold_def min.assoc
            split: option.splits)
  qed
qed

lemma markWeakCalls_other:
  "a_ref (markWeakCalls S calls c) = a_ref c \<and>
   b_ref (markWeakCalls S calls c) = b_ref c \<and>
   rest (markWeakCalls S calls c) = rest c \<and>
   stiffness (markWeakCalls S calls c) = stiffness c \<and>
   breakThresholdBase (markWeakCalls S calls c) = breakThresholdBase c \<and>
   broken (markWeakCalls S calls c) = broken c"
  by (induction S calls c rule: markWeakCalls.induct) simp_all

lemma DistanceConstraint_sel [simp]:
  "a_ref (DistanceConstraint S a b L k) = a"
  "b_ref (DistanceConstraint S a b L k) = b"
  "rest (DistanceConstraint S a b L k) = L"
  "stiffness (DistanceConstraint S a b L k) = k"
  "breakThresholdBase (DistanceConstraint S a b L k) = breakThreshold S"
  "weakUntilTs (DistanceConstraint S a b L k) = 0"
  "weakThreshold (DistanceConstraint S a b L k) = None"
  "broken (DistanceConstraint S a b L k) = False"
  by (simp_all add: DistanceConstraint_def)

subsection \<open>Composition of weakening calls\<close>

text \<open>
  Claim C3. A constraint is created by its constructor and then receives any sequence of
  \<^verbatim>\<open>markWeak\<close> calls. If the sequence is not empty, the stored weak threshold is the
  least of the proposed thresholds, each first raised to \<open>minWeakThreshold\<close>. The stored
  expiry starts at the constructor's 0 and is the greatest of the proposed expiries as
  soon as one of them is not before 0 (timestamps of \<^verbatim>\<open>performance.now()\<close> never are).
  Two calls with thresholds \<open>t1 < t2\<close> and expiries \<open>e1 > e2\<close>, with \<open>t1\<close> at or
  above the floor, leave threshold \<open>t1\<close> and expiry \<open>e1\<close> in either order, and \<open>t1\<close>
  is the threshold in effect at every time up to \<open>e1\<close>.
\<close>

theorem markWeak_composition:
  "(calls \<noteq> [] \<longrightarrow>
      weakThreshold (markWeakCalls S calls (DistanceConstraint S a b L k))
        = Some (Min (clampedThreshold S ` set calls)))
   \<and> ((\<exists>call \<in> set calls. 0 \<le> snd call) \<longrightarrow>
      weakUntilTs (markWeakCalls S calls (DistanceConstraint S a b L k))
        = Max (snd ` set calls))
   \<and> (t1 < t2 \<and> e2 < e1 \<and> minWeakThreshold S \<le> t1 \<and> 0 \<le> e1 \<longrightarrow>
      (\<forall>calls' \<in> {[(t1, e1), (t2, e2)], [(t2, e2), (t1, e1)]}.
         weakThreshold (markWeakCalls S calls' (DistanceConstraint S a b L k)) = Some t1
       \<and> weakUntilTs (markWeakCalls S calls' (DistanceConstraint S a b L k)) = e1
       \<and> (\<forall>nowTs \<le> e1.
            getCurrentBreakThreshold nowTs
              (markWeakCalls S calls' (DistanceConstraint S a b L k)) = t1)))"
proof (intro conjI impI)
  assume "calls \<noteq> []"
  then show "weakThreshold (markWeakCalls S calls (DistanceConstraint S a b L k))
        = Some (Min (clampedThreshold S ` set calls))"
    by (simp add: markWeakCalls_weakThreshold)
next
  assume "\<exists>call \<in> set calls. 0 \<le> snd call"
  then obtain call where call: "call \<in> set calls" "0 \<le> snd call" by blast
  then have ne: "snd ` set calls \<noteq> {}" by auto
  have "snd call \<le> Max (snd ` set calls)"
    using call by (intro Max_ge) simp_all
  with call have "0 \<le> Max (snd ` set calls)" by linarith
  then have "Max (insert 0 (snd ` set calls)) = Max (snd ` set calls)"
    using ne by (simp add: max_def)
  then show "weakUntilTs (markWeakCalls S calls (DistanceConstraint S a b L k))
        = Max (snd ` set calls)"
    by (simp add: markWeakCalls_weakUntilTs)
next
  assume h: "t1 < t2 \<and> e2 < e1 \<and> minWeakThreshold S \<le> t1 \<and> 0 \<le> e1"
  then show "\<forall>calls' \<in> {[(t1, e1), (t2, e2)], [(t2, e2), (t1, e1)]}.
         weakThreshold (markWeakCalls S calls' (DistanceConstraint S a b L k)) = Some t1
       \<and> weakUntilTs (markWeakCalls S calls' (DistanceConstraint S a b L k)) = e1
       \<and> (\<forall>nowTs \<le> e1.
            getCurrentBreakThreshold nowTs
              (markWeakCalls S calls' (DistanceConstraint S a b L k)) = t1)"
    by (auto simp: markWeak_weakThreshold getCurrentBreakThreshold_def max_def min_def)
qed

theorem markWeak_composition_witness:
  "weakThreshold (markWeakCalls SETTINGS [(1.53, 1450), (1.0, 1200), (1.3, 1700)]
      (DistanceConstraint SETTINGS 0 1 10 0.35)) = Some 1.18
   \<and> weakUntilTs (markWeakCalls SETTINGS [(1.53, 1450), (1.0, 1200), (1.3, 1700)]
      (DistanceConstraint SETTINGS 0 1 10 0.35)) = 1700
   \<and> getCurrentBreakThreshold 1300
       (markWeakCalls SETTINGS [(1.6, 1200), (1.53, 1450)]
          (DistanceConstraint SETTINGS 0 1 10 0.35)) = 1.53"
  using markWeak_composition [where calls = "[(1.53, 1450), (1.0, 1200), (1.3, 1700)]"
          and S = SETTINGS and a = 0 and b = 1 and L = 10 and k = "0.35"
          and ?t1.0 = "1.53" and ?t2.0 = "1.6" and ?e2.0 = 1200 and ?e1.0 = 1450]
  by (simp add: clampedThreshold_def SETTINGS_def)

subsection \<open>What breaking and solving leave of a constraint\<close>

lemma forceBreak_broken: "broken c \<Longrightarrow> forceBreak S ps c = (ps, c)"
  by (simp add: forceBreak_def)

lemma forceBreak_constraint: "snd (forceBreak S ps c) = c\<lparr>broken := True\<rparr>"
  by (simp add: forceBreak_def Let_def)

lemma satisfy_broken: "broken c \<Longrightarrow> satisfy S nowTs ps c = (False, ps, c)"
  by (simp add: satisfy_def)

lemma satisfy_constraint:
  "snd (snd (satisfy S nowTs ps c)) = c \<or> snd (snd (satisfy S nowTs ps c)) = c\<lparr>broken := True\<rparr>"
  by (simp add: satisfy_def Let_def forceBreak_constraint split: prod.splits)

lemma satisfy_weak_state:
  "weakThreshold (snd (snd (satisfy S nowTs ps c))) = weakThreshold c \<and>
   weakUntilTs (snd (snd (satisfy S nowTs ps c))) = weakUntilTs c"
  using satisfy_constraint [of S nowTs ps c] by auto

subsection \<open>Breaking happens once\<close>

text \<open>
  Claim C9. \<^verbatim>\<open>forceBreak\<close> on a constraint whose \<open>broken\<close> flag is set returns at once:
  the store and the constraint are the ones it was given. The flag is set after every
  call, so any number of calls in a row has the effect of the first one, and the tear
  impulse is applied at most once. Nothing resets the flag: \<^verbatim>\<open>markWeak\<close> keeps it, and
  \<^verbatim>\<open>satisfy\<close> on a broken constraint returns \<^verbatim>\<open>false\<close> before it reaches \<^verbatim>\<open>forceBreak\<close>.
\<close>

theorem forceBreak_idempotent:
  "(broken c \<longrightarrow> forceBreak S ps c = (ps, c))
   \<and> broken (snd (forceBreak S ps c))
   \<and> ((\<lambda>(ps', c'). forceBreak S ps' c') ^^ Suc n) (ps, c) = forceBreak S ps c
   \<and> (broken c \<longrightarrow> broken (markWeak S t e c) \<and> satisfy S nowTs ps c = (False, ps, c))"
proof -
  have again: "forceBreak S (fst (forceBreak S ps c)) (snd (forceBreak S ps c)) = forceBreak S ps c"
  proof -
    have "broken (snd (forceBreak S ps c))"
      by (simp add: forceBreak_constraint)
    then show ?thesis
      using forceBreak_broken [of "snd (forceBreak S ps c)" S "fst (forceBreak S ps c)"]
      by simp
  qed
  have "((\<lambda>(ps', c'). forceBreak S ps' c') ^^ Suc n) (ps, c) = forceBreak S ps c"
  proof (induction n)
    case 0
    show ?case by simp
  next
    case (Suc n)
    then show ?case using again by (simp add: case_prod_unfold)
  qed
  then show ?thesis
    by (simp add: forceBreak_broken forceBreak_constraint satisfy_broken)
qed

theorem forceBreak_idempotent_witness:
  "forceBreak SETTINGS
     [Particle 100 100 False 0.5 0.5, Particle 110 100 False 0.5 0.5]
     ((DistanceConstraint SETTINGS 0 1 10 0.35)\<lparr>broken := True\<rparr>)
   = ([Particle 100 100 False 0.5 0.5, Particle 110 100 False 0.5 0.5],
      (DistanceConstraint SETTINGS 0 1 10 0.35)\<lparr>broken := True\<rparr>)
   \<and> broken (markWeak SETTINGS 1.53 1450 ((DistanceConstraint SETTINGS 0 1 10 0.35)\<lparr>broken := True\<rparr>))"
  using forceBreak_idempotent [where c = "(DistanceConstraint SETTINGS 0 1 10 0.35)\<lparr>broken := True\<rparr>"
          and S = SETTINGS and t = "1.53" and e = 1450
          and ps = "[Particle 100 100 False 0.5 0.5, Particle 110 100 False 0.5 0.5]"]
  by (simp add: DistanceConstraint_def)

subsection \<open>The stored weak threshold outlives its window\<close>

text \<open>
  Claim C10. No operation clears the stored weak threshold. Across any sequence of
  \<^verbatim>\<open>markWeak\<close> calls a stored threshold stays stored and does not increase;
  \<^verbatim>\<open>forceBreak\<close> and \<^verbatim>\<open>satisfy\<close> leave it as it is. After the expiry the base threshold
  is the one in effect. A later \<^verbatim>\<open>markWeak\<close> that proposes a higher threshold \<open>t > w\<close>
  with an expiry \<open>e\<close> not before the current time keeps the stored \<open>w\<close>, moves the
  expiry to \<open>e\<close>, and so puts \<open>w\<close> back in effect.
\<close>

theorem weakThreshold_never_cleared:
  "(weakThreshold c = Some w \<longrightarrow>
      (\<exists>w'. weakThreshold (markWeakCalls S calls c) = Some w' \<and> w' \<le> w))
   \<and> weakThreshold (snd (forceBreak S ps c)) = weakThreshold c
   \<and> weakThreshold (snd (snd (satisfy S nowTs ps c))) = weakThreshold c
   \<and> (weakUntilTs c < nowTs \<longrightarrow> getCurrentBreakThreshold nowTs c = breakThresholdBase c)
   \<and> (weakThreshold c = Some w \<and> weakUntilTs c < nowTs \<and> w < t \<and> nowTs \<le> e \<longrightarrow>
        weakThreshold (markWeak S t e c) = Some w
      \<and> weakUntilTs (markWeak S t e c) = e
      \<and> getCurrentBreakThreshold nowTs (markWeak S t e c) = w)"
proof (intro conjI impI)
  assume w: "weakThreshold c = Some w"
  show "\<exists>w'. weakThreshold (markWeakCalls S calls c) = Some w' \<and> w' \<le> w"
  proof (cases "calls = []")
    case True
    with w show ?thesis by simp
  next
    case False
    with w show ?thesis by (simp add: markWeakCalls_weakThreshold)
  qed
next
  show "weakThreshold (snd (forceBreak S ps c)) = weakThreshold c"
    by (simp add: forceBreak_constraint)
next
  show "weakThreshold (snd (snd (satisfy S nowTs ps c))) = weakThreshold c"
    by (simp add: satisfy_weak_state)
next
  assume "weakUntilTs c < nowTs"
  then show "getCurrentBreakThreshold nowTs c = breakThresholdBase c"
    by (simp add: getCurrentBreakThreshold_def split: option.splits)
next
  assume h: "weakThreshold c = Some w \<and> weakUntilTs c < nowTs \<and> w < t \<and> nowTs \<le> e"
  then show "weakThreshold (markWeak S t e c) = Some w"
    by (simp add: markWeak_weakThreshold min_def max_def)
  from h show "weakUntilTs (markWeak S t e c) = e"
    by (simp add: max_def)
  from h show "getCurrentBreakThreshold nowTs (markWeak S t e c) = w"
    by (simp add: getCurrentBreakThreshold_def markWeak_weakThreshold min_def max_def)
qed

theorem weakThreshold_never_cleared_witness:
  "weakThreshold (markWeak SETTINGS 1.3 1000 (DistanceConstraint SETTINGS 0 1 10 0.35)) = Some 1.3
   \<and> getCurrentBreakThreshold 5000
       (markWeak SETTINGS 1.3 1000 (DistanceConstraint SETTINGS 0 1 10 0.35)) = 1.8
   \<and> getCurrentBreakThreshold 5000
       (markWeak SETTINGS 1.53 5450
          (markWeak SETTINGS 1.3 1000 (DistanceConstraint SETTINGS 0 1 10 0.35))) = 1.3
   \<and> (\<exists>w' \<le> 1.3. weakThreshold (markWeakCalls SETTINGS [(1.53, 5450), (1.25, 9000)]
          (markWeak SETTINGS 1.3 1000 (DistanceConstraint SETTINGS 0 1 10 0.35))) = Some w')"
  using weakThreshold_never_cleared
          [where c = "markWeak SETTINGS 1.3 1000 (DistanceConstraint SETTINGS 0 1 10 0.35)"
             and w = "1.3" and S = SETTINGS and nowTs = 5000 and t = "1.53" and e = 5450
             and calls = "[(1.53, 5450), (1.25, 9000)]"]
  by (auto simp: markWeak_weakThreshold SETTINGS_def max_def)

subsection \<open>The fracture threshold\<close>

text \<open>
  Claim C1. A constraint that is not broken is one that came from the constructor and
  received some \<^verbatim>\<open>markWeak\<close> calls since. When \<^verbatim>\<open>satisfy\<close> evaluates it at \<open>nowTs\<close>, with
  \<open>d\<close> the distance between its endpoints as the method computes it (a zero distance
  is replaced by \<open>1e-6\<close>) and \<open>T\<close> the threshold in effect, the constraint is broken
  afterwards if and only if \<open>d\<close> exceeds the rest length times \<open>T\<close>; the method returns
  \<^verbatim>\<open>true\<close> exactly when it did not break; a broken constraint is left alone by every
  later \<^verbatim>\<open>satisfy\<close> and by every later pass. \<open>T\<close> is the stored weak threshold if the
  constraint was weakened and \<open>nowTs\<close> is not after the expiry, and the base threshold
  otherwise. Provided the configured floor is not above the configured base threshold
  (1.18 and 1.8 in the source), \<open>T\<close> is never below the floor.
\<close>

theorem fracture_threshold:
  assumes floor: "minWeakThreshold S \<le> breakThreshold S"
  shows "let c = markWeakCalls S calls (DistanceConstraint S a b L k);
             d = orEps (hypot (positionX (ps ! b) - positionX (ps ! a))
                              (positionY (ps ! b) - positionY (ps ! a)));
             T = getCurrentBreakThreshold nowTs c
         in (case satisfy S nowTs ps c of (ok, ps', c') \<Rightarrow>
               (broken c' \<longleftrightarrow> L * T < d) \<and> (ok \<longleftrightarrow> \<not> broken c')
               \<and> (broken c' \<longrightarrow> satisfy S nowTs' ps' c' = (False, ps', c')
                                \<and> relaxPass S nowTs' n ps' [c'] = (ps', [c'])))
            \<and> (calls \<noteq> [] \<and> nowTs \<le> weakUntilTs c \<longrightarrow> weakThreshold c = Some T)
            \<and> (calls = [] \<or> weakUntilTs c < nowTs \<longrightarrow> T = breakThreshold S)
            \<and> minWeakThreshold S \<le> T"
proof -
  define c where "c = markWeakCalls S calls (DistanceConstraint S a b L k)"
  define d where "d = orEps (hypot (positionX (ps ! b) - positionX (ps ! a))
                              (positionY (ps ! b) - positionY (ps ! a)))"
  define T where "T = getCurrentBreakThreshold nowTs c"
  have sel: "a_ref c = a" "b_ref c = b" "rest c = L" "\<not> broken c"
    "breakThresholdBase c = breakThreshold S"
    using markWeakCalls_other [of S calls "DistanceConstraint S a b L k"]
    by (simp_all add: c_def)
  have wt: "weakThreshold c =
      (if calls = [] then None else Some (Min (clampedThreshold S ` set calls)))"
    by (simp add: c_def markWeakCalls_weakThreshold)
  have sat: "case satisfy S nowTs ps c of (ok, ps', c') \<Rightarrow>
               (broken c' \<longleftrightarrow> L * T < d) \<and> (ok \<longleftrightarrow> \<not> broken c')
               \<and> (broken c' \<longrightarrow> satisfy S nowTs' ps' c' = (False, ps', c')
                                \<and> relaxPass S nowTs' n ps' [c'] = (ps', [c']))"
    using sel
    by (auto simp: satisfy_def Let_def d_def T_def forceBreak_constraint
          split: prod.splits dest!: arg_cong [where f = snd])
  have T1: "calls \<noteq> [] \<and> nowTs \<le> weakUntilTs c \<longrightarrow> weakThreshold c = Some T"
    by (auto simp: T_def getCurrentBreakThreshold_def wt)
  have T2: "calls = [] \<or> weakUntilTs c < nowTs \<longrightarrow> T = breakThreshold S"
    by (auto simp: T_def getCurrentBreakThreshold_def wt sel)
  have "minWeakThreshold S \<le> Min (clampedThreshold S ` set calls)" if "calls \<noteq> []"
    using that by (simp add: clampedThreshold_def)
  then have T3: "minWeakThreshold S \<le> T"
    using floor by (auto simp: T_def getCurrentBreakThreshold_def wt sel)
  from sat T1 T2 T3 show ?thesis
    unfolding c_def [symmetric] d_def [symmetric] T_def [symmetric] Let_def
    by (simp add: c_def [symmetric] d_def [symmetric] T_def [symmetric])
qed


lemma hypot_axis: "hypot dx 0 = \<bar>dx\<bar>"
  by (simp add: hypot_def)

theorem fracture_threshold_witness:
  "minWeakThreshold SETTINGS \<le> breakThreshold SETTINGS
   \<and> broken (snd (snd (satisfy SETTINGS 1000
         [Particle 100 100 False 0.5 0.5, Particle 116 100 False 0.5 0.5]
         (markWeakCalls SETTINGS [(1.53, 1450)] (DistanceConstraint SETTINGS 0 1 10 0.35)))))
   \<and> \<not> broken (snd (snd (satisfy SETTINGS 2000
         [Particle 100 100 False 0.5 0.5, Particle 116 100 False 0.5 0.5]
         (markWeakCalls SETTINGS [(1.53, 1450)] (DistanceConstraint SETTINGS 0 1 10 0.35)))))"
proof -
  let ?ps = "[Particle 100 100 False 0.5 0.5, Particle 116 100 False 0.5 0.5]"
  let ?c = "markWeakCalls SETTINGS [(1.53, 1450)] (DistanceConstraint SETTINGS 0 1 10 0.35)"
  have floor: "minWeakThreshold SETTINGS \<le> breakThreshold SETTINGS"
    by (simp add: SETTINGS_def)
  have T1: "getCurrentBreakThreshold 1000 ?c = 1.53"
    by (simp add: getCurrentBreakThreshold_def markWeak_weakThreshold SETTINGS_def)
  have T2: "getCurrentBreakThreshold 2000 ?c = 1.8"
    by (simp add: getCurrentBreakThreshold_def markWeak_weakThreshold SETTINGS_def)
  have d: "orEps (hypot (positionX (?ps ! 1) - positionX (?ps ! 0))
                        (positionY (?ps ! 1) - positionY (?ps ! 0))) = 16"
    by (simp add: Particle_def hypot_axis orEps_def)
  obtain ok1 ps1 c1 where s1: "satisfy SETTINGS 1000 ?ps ?c = (ok1, ps1, c1)"
    by (rule prod_cases3)
  obtain ok2 ps2 c2 where s2: "satisfy SETTINGS 2000 ?ps ?c = (ok2, ps2, c2)"
    by (rule prod_cases3)
  have "broken c1 \<longleftrightarrow> (10::real) * 1.53 < 16"
    using fracture_threshold [OF floor, where calls = "[(1.53, 1450)]" and a = 0 and b = 1
        and L = 10 and k = "0.35" and nowTs = 1000 and ps = ?ps]
    by (simp only: Let_def s1 prod.case T1 d)
  moreover have "broken c2 \<longleftrightarrow> (10::real) * 1.8 < 16"
    using fracture_threshold [OF floor, where calls = "[(1.53, 1450)]" and a = 0 and b = 1
        and L = 10 and k = "0.35" and nowTs = 2000 and ps = ?ps]
    by (simp only: Let_def s2 prod.case T2 d)
  ultimately show ?thesis
    using floor by (simp only: s1 s2 snd_conv) simp
qed

subsection \<open>Integration\<close>

text \<open>
  Claim C2. In the integration loop every particle goes through \<^verbatim>\<open>verletStep\<close> and then
  through the two clamps. The Verlet step moves a particle that is not pinned to
  \<open>position + (position - previous) * (1 - damping) + acceleration * dt\<^sup>2\<close> and leaves a
  pinned one where it is; for both it sets the previous position to the old position
  and the acceleration to zero. Afterwards each coordinate is the clamp of that result
  to the canvas inset by the border padding, which lies inside the inset rectangle
  whenever the rectangle is not empty.
\<close>

theorem integration_step:
  "i < length ps \<Longrightarrow>
   (let p = ps ! i;
        v = verletStep dt (damping S) p;
        q = integrate S width height dt ps ! i;
        pad = borderPadding S
    in length (integrate S width height dt ps) = length ps
       \<and> (\<not> pinned p \<longrightarrow>
            positionX v = positionX p + (positionX p - previousX p) * (1 - damping S)
                            + accelX p * dt\<^sup>2
          \<and> positionY v = positionY p + (positionY p - previousY p) * (1 - damping S)
                            + accelY p * dt\<^sup>2)
       \<and> (pinned p \<longrightarrow> positionX v = positionX p \<and> positionY v = positionY p)
       \<and> previousX v = positionX p \<and> previousY v = positionY p
       \<and> accelX v = 0 \<and> accelY v = 0 \<and> pinned v = pinned p
       \<and> positionX q = clamp (positionX v) pad (width - pad)
       \<and> positionY q = clamp (positionY v) pad (height - pad)
       \<and> previousX q = positionX p \<and> previousY q = positionY p
       \<and> accelX q = 0 \<and> accelY q = 0 \<and> pinned q = pinned p
       \<and> (pad \<le> width - pad \<longrightarrow> pad \<le> positionX q \<and> positionX q \<le> width - pad)
       \<and> (pad \<le> height - pad \<longrightarrow> pad \<le> positionY q \<and> positionY q \<le> height - pad))"
  by (simp add: Let_def integrate_def verletStep_def clampToCanvas_def clamp_def power2_eq_square)

theorem integration_step_witness:
  "positionX (integrate SETTINGS 800 600 (1 / 60)
      [\<lparr>positionX = 100, positionY = 200, previousX = 99, previousY = 202,
        accelX = 3600, accelY = 0, pinned = False\<rparr>,
       \<lparr>positionX = 24, positionY = 24, previousX = 23, previousY = 23,
        accelX = 5, accelY = 5, pinned = True\<rparr>] ! 0) = 101.9965
   \<and> positionX (integrate SETTINGS 800 600 (1 / 60)
      [\<lparr>positionX = 100, positionY = 200, previousX = 99, previousY = 202,
        accelX = 3600, accelY = 0, pinned = False\<rparr>,
       \<lparr>positionX = 24, positionY = 24, previousX = 23, previousY = 23,
        accelX = 5, accelY = 5, pinned = True\<rparr>] ! 1) = 24"
  using integration_step [where i = 0 and S = SETTINGS and width = 800 and height = 600
      and dt = "1 / 60"
      and ps = "[\<lparr>positionX = 100, positionY = 200, previousX = 99, previousY = 202,
        accelX = 3600, accelY = 0, pinned = False\<rparr>,
       \<lparr>positionX = 24, positionY = 24, previousX = 23, previousY = 23,
        accelX = 5, accelY = 5, pinned = True\<rparr>]"]
    integration_step [where i = 1 and S = SETTINGS and width = 800 and height = 600
      and dt = "1 / 60"
      and ps = "[\<lparr>positionX = 100, positionY = 200, previousX = 99, previousY = 202,
        accelX = 3600, accelY = 0, pinned = False\<rparr>,
       \<lparr>positionX = 24, positionY = 24, previousX = 23, previousY = 23,
        accelX = 5, accelY = 5, pinned = True\<rparr>]"]
  by (simp add: Let_def SETTINGS_def clamp_def power2_eq_square)

subsection \<open>The cap on breaks in one pass\<close>

lemma newBreaks_same [simp]: "newBreaks cs cs = 0"
  by (induction cs) (simp_all add: newBreaks_def)

lemma newBreaks_Cons [simp]:
  "newBreaks (c # cs) (c' # cs') = (if \<not> broken c \<and> broken c' then 1 else 0) + newBreaks cs cs'"
  by (simp add: newBreaks_def)

lemma newBreaks_Nil [simp]: "newBreaks [] cs' = 0"
  by (simp add: newBreaks_def)

lemma satisfy_result:
  assumes "satisfy S nowTs ps c = (ok, ps1, c1)" and "\<not> broken c"
  shows "(ok \<longrightarrow> c1 = c) \<and> (\<not> ok \<longrightarrow> c1 = c\<lparr>broken := True\<rparr>)"
  using assms forceBreak_constraint [of S ps c]
  by (auto simp: satisfy_def Let_def split: if_splits prod.splits)

lemma relaxPass_counter:
  assumes "relaxPass S nowTs b ps cs = (ps', cs')" and "b < maxBreaksPerStep S"
  shows "length cs' = length cs
     \<and> b + int (newBreaks cs cs') \<le> maxBreaksPerStep S
     \<and> (\<forall>j < length cs. maxBreaksPerStep S \<le> b + int (newBreaks (take j cs) (take j cs'))
            \<longrightarrow> cs' ! j = cs ! j)
     \<and> (\<forall>j < length cs. cs' ! j = cs ! j \<or> cs' ! j = (cs ! j)\<lparr>broken := True\<rparr>)"
  using assms
proof (induction cs arbitrary: b ps ps' cs')
  case Nil
  then show ?case by simp
next
  case (Cons c cs)
  show ?case
  proof (cases "broken c")
    case True
    obtain ps2 cs2 where r: "relaxPass S nowTs b ps cs = (ps2, cs2)"
      by (cases "relaxPass S nowTs b ps cs")
    with Cons.prems True have eq: "cs' = c # cs2" by simp
    from Cons.IH [OF r Cons.prems(2)] show ?thesis
      unfolding eq using True by (auto simp: nth_Cons less_Suc_eq_0_disj split: nat.splits)
  next
    case False
    obtain ok ps1 c1 where s: "satisfy S nowTs ps c = (ok, ps1, c1)"
      by (rule prod_cases3)
    note sr = satisfy_result [OF s False]
    show ?thesis
    proof (cases ok)
      case True
      obtain ps2 cs2 where r: "relaxPass S nowTs b ps1 cs = (ps2, cs2)"
        by (cases "relaxPass S nowTs b ps1 cs")
      with Cons.prems False s True sr have eq: "cs' = c # cs2" by simp
      from Cons.IH [OF r Cons.prems(2)] show ?thesis
        unfolding eq using False by (auto simp: nth_Cons less_Suc_eq_0_disj split: nat.splits)
    next
      case notok: False
      with sr have c1: "c1 = c\<lparr>broken := True\<rparr>" by simp
      show ?thesis
      proof (cases "maxBreaksPerStep S \<le> b + 1")
        case True
        with Cons.prems False s notok have eq: "cs' = c1 # cs" by simp
        show ?thesis
          unfolding eq using False c1 True Cons.prems(2)
          by (auto simp: nth_Cons less_Suc_eq_0_disj split: nat.splits)
      next
        case lt: False
        obtain ps2 cs2 where r: "relaxPass S nowTs (b + 1) ps1 cs = (ps2, cs2)"
          by (cases "relaxPass S nowTs (b + 1) ps1 cs")
        with Cons.prems False s notok lt have eq: "cs' = c1 # cs2" by simp
        from lt have b1: "b + 1 < maxBreaksPerStep S" by simp
        from Cons.IH [OF r b1] show ?thesis
          unfolding eq using False c1
          by (auto simp: nth_Cons less_Suc_eq_0_disj add.assoc split: nat.splits)
      qed
    qed
  qed
qed

lemma relaxPass_stops:
  assumes "relaxPass S nowTs b ps cs = (ps', cs')" and "b < maxBreaksPerStep S"
    and "maxBreaksPerStep S \<le> b + int (newBreaks (take j cs) (take j cs'))"
  shows "relaxPass S nowTs b ps (take j cs) = (ps', take j cs') \<and> drop j cs' = drop j cs"
  using assms
proof (induction cs arbitrary: b ps ps' cs' j)
  case Nil
  then show ?case by simp
next
  case (Cons c cs)
  from Cons.prems(2,3) obtain i where j: "j = Suc i"
    by (cases j) auto
  show ?case
  proof (cases "broken c")
    case True
    obtain ps2 cs2 where r: "relaxPass S nowTs b ps cs = (ps2, cs2)"
      by (cases "relaxPass S nowTs b ps cs")
    with Cons.prems True have eq: "cs' = c # cs2" "ps' = ps2" by simp_all
    from Cons.prems(3) True have "maxBreaksPerStep S \<le> b + int (newBreaks (take i cs) (take i cs2))"
      by (simp add: j eq)
    from Cons.IH [OF r Cons.prems(2) this] show ?thesis
      using True by (simp add: j eq)
  next
    case False
    obtain ok ps1 c1 where s: "satisfy S nowTs ps c = (ok, ps1, c1)"
      by (rule prod_cases3)
    note sr = satisfy_result [OF s False]
    show ?thesis
    proof (cases ok)
      case True
      obtain ps2 cs2 where r: "relaxPass S nowTs b ps1 cs = (ps2, cs2)"
        by (cases "relaxPass S nowTs b ps1 cs")
      with Cons.prems False s True sr have eq: "cs' = c # cs2" "ps' = ps2" by simp_all
      from Cons.prems(3) False have "maxBreaksPerStep S \<le> b + int (newBreaks (take i cs) (take i cs2))"
        by (simp add: j eq)
      from Cons.IH [OF r Cons.prems(2) this] show ?thesis
        using False s True sr by (simp add: j eq)
    next
      case notok: False
      with sr have c1: "c1 = c\<lparr>broken := True\<rparr>" by simp
      show ?thesis
      proof (cases "maxBreaksPerStep S \<le> b + 1")
        case True
        with Cons.prems False s notok have eq: "cs' = c1 # cs" "ps' = ps1" by simp_all
        show ?thesis
          using False s notok True by (simp add: j eq)
      next
        case lt: False
        obtain ps2 cs2 where r: "relaxPass S nowTs (b + 1) ps1 cs = (ps2, cs2)"
          by (cases "relaxPass S nowTs (b + 1) ps1 cs")
        with Cons.prems False s notok lt have eq: "cs' = c1 # cs2" "ps' = ps2" by simp_all
        from lt have b1: "b + 1 < maxBreaksPerStep S" by simp
        from Cons.prems(3) False c1
        have "maxBreaksPerStep S \<le> b + 1 + int (newBreaks (take i cs) (take i cs2))"
          by (simp add: j eq)
        from Cons.IH [OF r b1 this] show ?thesis
          using False s notok lt by (simp add: j eq)
      qed
    qed
  qed
qed

lemma relaxLoop_flags:
  assumes "1 \<le> maxBreaksPerStep S"
  shows "length (snd (relaxLoop S nowTs n ps cs)) = length cs
     \<and> (\<forall>j < length cs. snd (relaxLoop S nowTs n ps cs) ! j = cs ! j
            \<or> snd (relaxLoop S nowTs n ps cs) ! j = (cs ! j)\<lparr>broken := True\<rparr>)"
proof (induction n arbitrary: ps cs)
  case 0
  show ?case by simp
next
  case (Suc n)
  obtain ps1 cs1 where r: "relaxPass S nowTs 0 ps cs = (ps1, cs1)"
    by (cases "relaxPass S nowTs 0 ps cs")
  from assms have "0 < maxBreaksPerStep S" by simp
  from relaxPass_counter [OF r this]
  have one: "length cs1 = length cs"
    "\<forall>j < length cs. cs1 ! j = cs ! j \<or> cs1 ! j = (cs ! j)\<lparr>broken := True\<rparr>"
    by simp_all
  have step: "relaxLoop S nowTs (Suc n) ps cs = relaxLoop S nowTs n ps1 cs1"
    by (simp add: r)
  from Suc.IH [of ps1 cs1]
  have rest: "length (snd (relaxLoop S nowTs n ps1 cs1)) = length cs1"
    "\<forall>j < length cs1. snd (relaxLoop S nowTs n ps1 cs1) ! j = cs1 ! j
        \<or> snd (relaxLoop S nowTs n ps1 cs1) ! j = (cs1 ! j)\<lparr>broken := True\<rparr>"
    by simp_all
  show ?case
    unfolding step
  proof (intro conjI allI impI)
    show "length (snd (relaxLoop S nowTs n ps1 cs1)) = length cs"
      using rest(1) one(1) by simp
  next
    fix j assume j: "j < length cs"
    from one(2) j have "cs1 ! j = cs ! j \<or> cs1 ! j = (cs ! j)\<lparr>broken := True\<rparr>"
      by blast
    moreover from rest(2) j one(1)
    have "snd (relaxLoop S nowTs n ps1 cs1) ! j = cs1 ! j
        \<or> snd (relaxLoop S nowTs n ps1 cs1) ! j = (cs1 ! j)\<lparr>broken := True\<rparr>"
      by simp
    ultimately show "snd (relaxLoop S nowTs n ps1 cs1) ! j = cs ! j
        \<or> snd (relaxLoop S nowTs n ps1 cs1) ! j = (cs ! j)\<lparr>broken := True\<rparr>"
      by auto
  qed
qed

lemma stepSimulation_solver:
  "particles (stepSimulation S width height rnd now nowTs dtMs st)
     = fst (relaxLoop S nowTs (nat (constraintIterations S))
              (relaxInput S width height rnd now dtMs st) (constraints st))
   \<and> constraints (stepSimulation S width height rnd now nowTs dtMs st)
     = filter (\<lambda>c. \<not> broken c)
         (snd (relaxLoop S nowTs (nat (constraintIterations S))
                 (relaxInput S width height rnd now dtMs st) (constraints st)))"
  by (simp add: stepSimulation_def relaxInput_def Let_def case_prod_unfold)

text \<open>
  Claim C5. With a cap of at least one (200 in the source), one pass over the constraint
  list keeps the list's length, newly marks at most \<open>maxBreaksPerStep\<close> constraints
  broken, and changes a constraint in no other way than by setting its \<open>broken\<close> flag.
  Once the cap is reached the pass stops: if the breaks among the first \<open>j\<close>
  constraints reach the cap, every constraint from position \<open>j\<close> on is the one that
  was there before the pass, and the store at the end of the pass is the store after
  those first \<open>j\<close> constraints alone, so none of the later ones was evaluated. The
  next pass of the solver's loop runs on the store and the list that this pass returned.
  After any number of passes the list has its length and each constraint is as it was
  or has its flag set. The step hands on, in their order, exactly the constraints of the
  last pass's list whose flag is not set: each of them is the constraint that entered the
  step, unchanged, and is in the list with which the next step starts.
\<close>

theorem break_cap:
  assumes "1 \<le> maxBreaksPerStep S"
  shows "(case relaxPass S nowTs 0 ps cs of (ps', cs') \<Rightarrow>
           length cs' = length cs
         \<and> int (newBreaks cs cs') \<le> maxBreaksPerStep S
         \<and> (\<forall>j < length cs. maxBreaksPerStep S \<le> int (newBreaks (take j cs) (take j cs'))
                \<longrightarrow> cs' ! j = cs ! j)
         \<and> (\<forall>j < length cs. cs' ! j = cs ! j \<or> cs' ! j = (cs ! j)\<lparr>broken := True\<rparr>)
         \<and> (\<forall>j \<le> length cs.
               maxBreaksPerStep S \<le> int (newBreaks (take j cs) (take j cs'))
                \<longrightarrow> relaxPass S nowTs 0 ps (take j cs) = (ps', take j cs')
                    \<and> drop j cs' = drop j cs)
         \<and> relaxLoop S nowTs (Suc n) ps cs = relaxLoop S nowTs n ps' cs')
       \<and> length (snd (relaxLoop S nowTs n ps cs)) = length cs
       \<and> (\<forall>j < length cs. snd (relaxLoop S nowTs n ps cs) ! j = cs ! j
              \<or> snd (relaxLoop S nowTs n ps cs) ! j = (cs ! j)\<lparr>broken := True\<rparr>)
       \<and> (let csn = snd (relaxLoop S nowTs (nat (constraintIterations S))
                           (relaxInput S width height rnd now dtMs st) (constraints st))
          in constraints (stepSimulation S width height rnd now nowTs dtMs st)
               = filter (\<lambda>c. \<not> broken c) csn
           \<and> length csn = length (constraints st)
           \<and> (\<forall>j < length (constraints st). \<not> broken (csn ! j) \<longrightarrow>
                 csn ! j = constraints st ! j
               \<and> constraints st ! j
                   \<in> set (constraints (stepSimulation S width height rnd now nowTs dtMs st))))"
proof -
  obtain ps' cs' where r: "relaxPass S nowTs 0 ps cs = (ps', cs')"
    by (cases "relaxPass S nowTs 0 ps cs")
  from assms have cap: "0 < maxBreaksPerStep S" by simp
  have pass: "case relaxPass S nowTs 0 ps cs of (ps', cs') \<Rightarrow>
           length cs' = length cs
         \<and> int (newBreaks cs cs') \<le> maxBreaksPerStep S
         \<and> (\<forall>j < length cs. maxBreaksPerStep S \<le> int (newBreaks (take j cs) (take j cs'))
                \<longrightarrow> cs' ! j = cs ! j)
         \<and> (\<forall>j < length cs. cs' ! j = cs ! j \<or> cs' ! j = (cs ! j)\<lparr>broken := True\<rparr>)
         \<and> (\<forall>j \<le> length cs.
               maxBreaksPerStep S \<le> int (newBreaks (take j cs) (take j cs'))
                \<longrightarrow> relaxPass S nowTs 0 ps (take j cs) = (ps', take j cs')
                    \<and> drop j cs' = drop j cs)
         \<and> relaxLoop S nowTs (Suc n) ps cs = relaxLoop S nowTs n ps' cs'"
    using relaxPass_counter [OF r cap] relaxPass_stops [OF r cap]
    by (simp add: r)
  note loop = relaxLoop_flags [OF assms, of nowTs n ps cs]
  define csn where "csn = snd (relaxLoop S nowTs (nat (constraintIterations S))
                           (relaxInput S width height rnd now dtMs st) (constraints st))"
  note fl = relaxLoop_flags [OF assms, of nowTs "nat (constraintIterations S)"
      "relaxInput S width height rnd now dtMs st" "constraints st", folded csn_def]
  have out: "constraints (stepSimulation S width height rnd now nowTs dtMs st)
               = filter (\<lambda>c. \<not> broken c) csn"
    using stepSimulation_solver [of S width height rnd now nowTs dtMs st]
    by (simp add: csn_def)
  have kept: "csn ! j = constraints st ! j
      \<and> constraints st ! j \<in> set (constraints (stepSimulation S width height rnd now nowTs dtMs st))"
    if j: "j < length (constraints st)" and nb: "\<not> broken (csn ! j)" for j
  proof -
    from fl j have "csn ! j = constraints st ! j \<or> csn ! j = (constraints st ! j)\<lparr>broken := True\<rparr>"
      by blast
    with nb have same: "csn ! j = constraints st ! j" by auto
    from fl j have "csn ! j \<in> set csn" by simp
    with nb have "csn ! j \<in> set (filter (\<lambda>c. \<not> broken c) csn)" by simp
    with same show ?thesis by (simp add: out)
  qed
  have step: "let csn = snd (relaxLoop S nowTs (nat (constraintIterations S))
                           (relaxInput S width height rnd now dtMs st) (constraints st))
          in constraints (stepSimulation S width height rnd now nowTs dtMs st)
               = filter (\<lambda>c. \<not> broken c) csn
           \<and> length csn = length (constraints st)
           \<and> (\<forall>j < length (constraints st). \<not> broken (csn ! j) \<longrightarrow>
                 csn ! j = constraints st ! j
               \<and> constraints st ! j
                   \<in> set (constraints (stepSimulation S width height rnd now nowTs dtMs st)))"
    unfolding Let_def csn_def [symmetric] using out fl kept by blast
  from pass loop step show ?thesis by blast
qed

lemma satisfy_breaks:
  assumes "\<not> broken c"
    and "rest c * getCurrentBreakThreshold nowTs c
           < orEps (hypot (positionX (ps ! b_ref c) - positionX (ps ! a_ref c))
                          (positionY (ps ! b_ref c) - positionY (ps ! a_ref c)))"
  shows "satisfy S nowTs ps c = (False, fst (forceBreak S ps c), c\<lparr>broken := True\<rparr>)"
  using assms forceBreak_constraint [of S ps c]
  by (simp add: satisfy_def Let_def case_prod_unfold) (metis prod.collapse)

theorem break_cap_witness:
  "1 \<le> maxBreaksPerStep (SETTINGS\<lparr>constraintIterations := 1, maxBreaksPerStep := 1\<rparr>)
   \<and> newBreaks
        [DistanceConstraint SETTINGS 0 1 10 0.35, DistanceConstraint SETTINGS 1 2 10 0.35]
        (snd (relaxPass (SETTINGS\<lparr>constraintIterations := 1, maxBreaksPerStep := 1\<rparr>) 0 0
          [Particle 100 100 False 0.5 0.5, Particle 130 100 False 0.5 0.5,
           Particle 160 100 False 0.5 0.5]
          [DistanceConstraint SETTINGS 0 1 10 0.35, DistanceConstraint SETTINGS 1 2 10 0.35])) = 1
   \<and> drop 1 (snd (relaxPass (SETTINGS\<lparr>constraintIterations := 1, maxBreaksPerStep := 1\<rparr>) 0 0
        [Particle 100 100 False 0.5 0.5, Particle 130 100 False 0.5 0.5,
         Particle 160 100 False 0.5 0.5]
        [DistanceConstraint SETTINGS 0 1 10 0.35, DistanceConstraint SETTINGS 1 2 10 0.35]))
      = [DistanceConstraint SETTINGS 1 2 10 0.35]
   \<and> constraints (stepSimulation (SETTINGS\<lparr>constraintIterations := 1, maxBreaksPerStep := 1\<rparr>)
        800 600 midRandom 0 0 (1000 / 60)
        \<lparr>particles = [Particle 100 100 False 0.5 0.5, Particle 130 100 False 0.5 0.5,
                       Particle 160 100 False 0.5 0.5],
         constraints = [DistanceConstraint SETTINGS 0 1 10 0.35,
                        DistanceConstraint SETTINGS 1 2 10 0.35],
         pulses = []\<rparr>)
      = [DistanceConstraint SETTINGS 1 2 10 0.35]"
proof -
  let ?S = "SETTINGS\<lparr>constraintIterations := 1, maxBreaksPerStep := 1\<rparr>"
  let ?ps = "[Particle 100 100 False 0.5 0.5, Particle 130 100 False 0.5 0.5,
         Particle 160 100 False 0.5 0.5]"
  let ?c = "DistanceConstraint SETTINGS 0 1 10 0.35"
  let ?c' = "DistanceConstraint SETTINGS 1 2 10 0.35"
  let ?st = "\<lparr>particles = ?ps, constraints = [?c, ?c'], pulses = []\<rparr>"
  have cap: "1 \<le> maxBreaksPerStep ?S" by simp
  have sat: "satisfy ?S 0 ?ps ?c = (False, fst (forceBreak ?S ?ps ?c), ?c\<lparr>broken := True\<rparr>)"
    by (rule satisfy_breaks)
       (simp_all add: getCurrentBreakThreshold_def hypot_axis orEps_def Particle_def SETTINGS_def)
  have nb: "\<not> broken ?c" by simp
  have full: "relaxPass ?S 0 0 ?ps [?c, ?c'] = (fst (forceBreak ?S ?ps ?c), [?c\<lparr>broken := True\<rparr>, ?c'])"
    by (simp only: relaxPass.simps nb sat if_False prod.case not_False_eq_True if_True)
       simp
  have new: "newBreaks (take 1 [?c, ?c']) (take 1 [?c\<lparr>broken := True\<rparr>, ?c']) = 1"
    by simp
  have inp: "relaxInput ?S 800 600 midRandom 0 (1000 / 60) ?st = ?ps"
    by (simp add: relaxInput_def integrate_def verletStep_def clampToCanvas_def clamp_def
          Particle_def addForce_def randRange_def midRandom_def Let_def SETTINGS_def)
  have iters: "nat (constraintIterations ?S) = Suc 0" by simp
  have loop: "snd (relaxLoop ?S 0 (Suc 0) ?ps [?c, ?c']) = [?c\<lparr>broken := True\<rparr>, ?c']"
    by (simp only: relaxLoop.simps full prod.case snd_conv)
  note inst = break_cap [OF cap, where nowTs = 0 and ps = ?ps and cs = "[?c, ?c']"
      and width = 800 and height = 600 and rnd = midRandom and now = 0
      and dtMs = "1000 / 60" and st = ?st and n = 0]
  from inst
  have "maxBreaksPerStep ?S \<le> int (newBreaks (take 1 [?c, ?c']) (take 1 [?c\<lparr>broken := True\<rparr>, ?c']))
      \<longrightarrow> drop 1 [?c\<lparr>broken := True\<rparr>, ?c'] = drop 1 [?c, ?c']"
    by (simp only: full prod.case) simp
  moreover from inst
  have "constraints (stepSimulation ?S 800 600 midRandom 0 0 (1000 / 60) ?st)
      = filter (\<lambda>c. \<not> broken c) [?c\<lparr>broken := True\<rparr>, ?c']"
    unfolding Let_def inp iters
    by (simp only: select_convs loop)
  then have "constraints (stepSimulation ?S 800 600 midRandom 0 0 (1000 / 60) ?st) = [?c']"
    by simp
  ultimately show ?thesis
    using cap by (simp only: full snd_conv new) simp
qed

subsection \<open>Degenerate grid dimensions\<close>

text \<open>
  Claim C8, as stated, fails: \<^verbatim>\<open>buildGrid\<close> with zero columns returns normally, with no
  particles and no constraints.
\<close>

theorem buildGrid_no_error_counterexample:
  "buildGrid (SETTINGS\<lparr>gridCols := 0\<rparr>) 800 600 midRandom
      \<lparr>particles = [], constraints = [], pulses = []\<rparr>
    = Inr \<lparr>particles = [], constraints = [], pulses = []\<rparr>"
  by (simp add: buildGrid_def gridParticles_def gridConstraints_def SETTINGS_def)

text \<open>
  Claim C8, amended. With zero or negative grid columns or rows \<^verbatim>\<open>buildGrid\<close> raises
  no error: no loop body runs, and it returns with an empty particle list and
  an empty constraint list.
\<close>

theorem buildGrid_degenerate:
  "gridCols S \<le> 0 \<or> gridRows S \<le> 0 \<Longrightarrow>
   buildGrid S width height rnd st = Inr (st\<lparr>particles := [], constraints := []\<rparr>)"
  by (auto simp: buildGrid_def gridParticles_def gridConstraints_def Let_def)

theorem buildGrid_degenerate_witness:
  "(gridCols (SETTINGS\<lparr>gridRows := - 1\<rparr>) \<le> 0 \<or> gridRows (SETTINGS\<lparr>gridRows := - 1\<rparr>) \<le> 0)
   \<and> buildGrid (SETTINGS\<lparr>gridRows := - 1\<rparr>) 800 600 midRandom
        \<lparr>particles = [], constraints = [], pulses = []\<rparr>
      = Inr \<lparr>particles = [], constraints = [], pulses = []\<rparr>"
  using buildGrid_degenerate [where S = "SETTINGS\<lparr>gridRows := - 1\<rparr>" and width = 800
      and height = 600 and rnd = midRandom
      and st = "\<lparr>particles = [], constraints = [], pulses = []\<rparr>"]
  by simp

subsection \<open>The force of a pulse\<close>

lemma applyForces_length [simp]: "length (applyForces S rnd n ps) = length ps"
  by (induction ps arbitrary: n) (simp_all add: Let_def)

lemma applyForces_position:
  "i < length ps \<Longrightarrow>
   positionX (applyForces S rnd n ps ! i) = positionX (ps ! i) \<and>
   positionY (applyForces S rnd n ps ! i) = positionY (ps ! i) \<and>
   pinned (applyForces S rnd n ps ! i) = pinned (ps ! i)"
proof (induction ps arbitrary: n i)
  case Nil
  then show ?case by simp
next
  case (Cons p ps)
  then show ?case
    by (cases i) (simp_all add: Let_def addForce_def)
qed

lemma pulseOnParticle_position [simp]:
  "positionX (pulseOnParticle base ts pu p) = positionX p"
  "positionY (pulseOnParticle base ts pu p) = positionY p"
  "pinned (pulseOnParticle base ts pu p) = pinned p"
  by (simp_all add: pulseOnParticle_def Let_def addForce_def)

lemma pulseOnParticle_origin:
  "positionX p = pulse_x pu \<Longrightarrow> positionY p = pulse_y pu \<Longrightarrow> pulseOnParticle base ts pu p = p"
  by (simp add: pulseOnParticle_def Let_def addForce_def)

lemma applyPulse_length [simp]: "length (applyPulse k now pu ps) = length ps"
  by (simp add: applyPulse_def Let_def)

lemma applyPulse_nth:
  "i < length ps \<Longrightarrow>
   applyPulse k now pu ps ! i =
     pulseOnParticle (strength pu * exp (- k * (now - createdAt pu)))
       (2 * sigma pu * sigma pu) pu (ps ! i)"
  by (simp add: applyPulse_def Let_def)

lemma applyPulses_length [simp]:
  "length (foldl (\<lambda>ps pu. applyPulse k now pu ps) ps pus) = length ps"
  by (induction pus arbitrary: ps) simp_all

lemma applyPulses_position:
  "i < length ps \<Longrightarrow>
   positionX (foldl (\<lambda>ps pu. applyPulse k now pu ps) ps pus ! i) = positionX (ps ! i) \<and>
   positionY (foldl (\<lambda>ps pu. applyPulse k now pu ps) ps pus ! i) = positionY (ps ! i)"
  by (induction pus arbitrary: ps) (simp_all add: applyPulse_nth)

lemma relaxLoop_no_constraints [simp]: "relaxLoop S nowTs n ps [] = (ps, [])"
  by (induction n) simp_all

lemma integrate_nth:
  "i < length ps \<Longrightarrow>
   integrate S w h dt ps ! i = clampToCanvas S w h (verletStep dt (damping S) (ps ! i))"
  by (simp add: integrate_def)

lemma integrate_length [simp]: "length (integrate S w h dt ps) = length ps"
  by (simp add: integrate_def)

text \<open>
  Claim C7, as stated, fails at a particle that sits exactly on the pulse's origin. There
  \<open>dx = dy = 0\<close>, the guarded quotient \<open>dx / (r + 1e-6)\<close> is zero, and the pulse adds no
  acceleration although \<open>strength * decay * falloff\<close> is 3000. With one free particle at
  (100, 100), no constraints, and a pulse of strength 3000 injected at (100, 100), a
  tick leaves the particles exactly as the same tick without the pulse does.
\<close>

theorem pulse_at_particle_counterexample:
  "particles (stepSimulation SETTINGS 800 600 midRandom 1000 1000 (1000 / 60)
      (addPulse SETTINGS 100 100 3000 1000
         \<lparr>particles = [\<lparr>positionX = 100, positionY = 100, previousX = 100, previousY = 100,
                         accelX = 0, accelY = 0, pinned = False\<rparr>],
          constraints = [], pulses = []\<rparr>))
   = particles (stepSimulation SETTINGS 800 600 midRandom 1000 1000 (1000 / 60)
         \<lparr>particles = [\<lparr>positionX = 100, positionY = 100, previousX = 100, previousY = 100,
                         accelX = 0, accelY = 0, pinned = False\<rparr>],
          constraints = [], pulses = []\<rparr>)
   \<and> applyPulse (ln 2 / 650) 1000
        \<lparr>pulse_x = 100, pulse_y = 100, strength = 3000, sigma = 90, createdAt = 1000\<rparr>
        [\<lparr>positionX = 100, positionY = 100, previousX = 100, previousY = 100,
          accelX = 0, accelY = 0, pinned = False\<rparr>]
      = [\<lparr>positionX = 100, positionY = 100, previousX = 100, previousY = 100,
          accelX = 0, accelY = 0, pinned = False\<rparr>]"
  by (simp add: stepSimulation_def addPulse_def SETTINGS_def Let_def applyPulse_def
        pulseOnParticle_def addForce_def)

lemma pulse_on_particle:
  assumes i: "i < length ps"
  shows
  "(let p = ps ! i;
        q = applyPulse (ln 2 / halfLife) now pu ps ! i;
        decay = exp (- (ln 2 / halfLife) * (now - createdAt pu));
        dx = positionX p - pulse_x pu;
        dy = positionY p - pulse_y pu;
        r2 = dx * dx + dy * dy;
        falloff = exp (- r2 / (2 * sigma pu * sigma pu));
        m = strength pu * decay * falloff
    in (pinned p \<longrightarrow> q = p)
       \<and> (\<not> pinned p \<longrightarrow>
            q = addForce (dx / (sqrt r2 + 0.000001) * m) (dy / (sqrt r2 + 0.000001) * m) p
          \<and> hypot (accelX q - accelX p) (accelY q - accelY p)
              = \<bar>m\<bar> * (sqrt r2 / (sqrt r2 + 0.000001))
          \<and> (0 \<le> strength pu \<longrightarrow>
                0 \<le> (accelX q - accelX p) * dx + (accelY q - accelY p) * dy)
          \<and> (0 < strength pu \<and> 0 < r2 \<longrightarrow>
                0 < (accelX q - accelX p) * dx + (accelY q - accelY p) * dy))
       \<and> (dx = 0 \<and> dy = 0 \<longrightarrow> q = p))"
proof -
  define p where "p = ps ! i"
  define decay where "decay = exp (- (ln 2 / halfLife) * (now - createdAt pu))"
  define dx where "dx = positionX p - pulse_x pu"
  define dy where "dy = positionY p - pulse_y pu"
  define r2 where "r2 = dx * dx + dy * dy"
  define falloff where "falloff = exp (- r2 / (2 * sigma pu * sigma pu))"
  define m where "m = strength pu * decay * falloff"
  define r where "r = sqrt r2 + 0.000001"
  define q where "q = applyPulse (ln 2 / halfLife) now pu ps ! i"
  have r2: "0 \<le> r2" by (simp add: r2_def)
  then have r: "0 < r" by (simp add: r_def add_nonneg_pos)
  have q1: "q = pulseOnParticle (strength pu * decay) (2 * sigma pu * sigma pu) pu p"
    using i by (simp add: q_def applyPulse_nth p_def decay_def)
  have q2: "pulseOnParticle (strength pu * decay) (2 * sigma pu * sigma pu) pu p
      = (if pinned p then p
         else addForce ((dx / r) * (strength pu * decay) * falloff)
                ((dy / r) * (strength pu * decay) * falloff) p)"
    unfolding pulseOnParticle_def Let_def falloff_def r_def r2_def dx_def dy_def
    by (rule refl)
  have q: "q = (if pinned p then p else addForce (dx / r * m) (dy / r * m) p)"
    unfolding q1 q2 m_def by (simp add: mult.assoc)
  have ax: "accelX q - accelX p = dx / r * m" "accelY q - accelY p = dy / r * m"
    if "\<not> pinned p"
    using that by (simp_all add: q addForce_def)
  have sq: "(dx / r * m) * (dx / r * m) + (dy / r * m) * (dy / r * m) = (m / r)\<^sup>2 * r2"
    by (simp add: r2_def power2_eq_square algebra_simps add_divide_distrib)
  have mag: "hypot (dx / r * m) (dy / r * m) = \<bar>m\<bar> * (sqrt r2 / r)"
    unfolding hypot_def sq using r
    by (simp add: real_sqrt_mult abs_mult)
  have dot: "(dx / r * m) * dx + (dy / r * m) * dy = m * (r2 / r)"
    by (simp add: r2_def algebra_simps add_divide_distrib)
  have m0: "0 \<le> m" if "0 \<le> strength pu"
    using that by (simp add: m_def decay_def falloff_def)
  have m1: "0 < m" if "0 < strength pu"
    using that by (simp add: m_def decay_def falloff_def)
  have out0: "0 \<le> m * (r2 / r)" if "0 \<le> strength pu"
    using m0 [OF that] r2 r by simp
  have out1: "0 < m * (r2 / r)" if "0 < strength pu" "0 < r2"
    using m1 [OF that(1)] that(2) r by simp
  have origin: "q = p" if "dx = 0 \<and> dy = 0"
    using that by (simp add: q addForce_def)
  have main: "(pinned p \<longrightarrow> q = p)
       \<and> (\<not> pinned p \<longrightarrow>
            q = addForce (dx / r * m) (dy / r * m) p
          \<and> hypot (accelX q - accelX p) (accelY q - accelY p) = \<bar>m\<bar> * (sqrt r2 / r)
          \<and> (0 \<le> strength pu \<longrightarrow>
                0 \<le> (accelX q - accelX p) * dx + (accelY q - accelY p) * dy)
          \<and> (0 < strength pu \<and> 0 < r2 \<longrightarrow>
                0 < (accelX q - accelX p) * dx + (accelY q - accelY p) * dy))
       \<and> (dx = 0 \<and> dy = 0 \<longrightarrow> q = p)"
  proof (cases "pinned p")
    case True
    with q origin show ?thesis by simp
  next
    case False
    have "q = addForce (dx / r * m) (dy / r * m) p"
      using False q by simp
    moreover have "hypot (accelX q - accelX p) (accelY q - accelY p) = \<bar>m\<bar> * (sqrt r2 / r)"
      unfolding ax [OF False] by (rule mag)
    moreover have "0 \<le> strength pu \<longrightarrow>
        0 \<le> (accelX q - accelX p) * dx + (accelY q - accelY p) * dy"
      unfolding ax [OF False] dot using out0 by blast
    moreover have "0 < strength pu \<and> 0 < r2 \<longrightarrow>
        0 < (accelX q - accelX p) * dx + (accelY q - accelY p) * dy"
      unfolding ax [OF False] dot using out1 by blast
    ultimately show ?thesis
      using False origin by blast
  qed
  from main show ?thesis
    unfolding Let_def m_def falloff_def r_def r2_def dx_def dy_def decay_def q_def p_def .
qed

lemma pulse_at_origin_tick:
  assumes i: "i < length (particles st)" and cs: "constraints st = []"
    and x: "positionX (particles st ! i) = x" and y: "positionY (particles st ! i) = y"
  shows "particles (stepSimulation S width height rnd now nowTs dtMs (addPulse S x y str t0 st)) ! i
       = particles (stepSimulation S width height rnd now nowTs dtMs st) ! i"
proof -
  define pu where "pu = \<lparr>pulse_x = x, pulse_y = y, strength = str, sigma = pulseSigma S,
    createdAt = t0\<rparr>"
  define k where "k = ln 2 / pulseHalfLifeMs S"
  define ps1 where "ps1 = applyForces S rnd 0 (particles st)"
  define live where "live = filter (\<lambda>pu. now - createdAt pu < pulseHalfLifeMs S * 6) (pulses st)"
  define ps2 where "ps2 = foldl (\<lambda>ps pu. applyPulse k now pu ps) ps1 live"
  have len: "i < length ps2" "i < length ps1"
    using i by (simp_all add: ps2_def ps1_def)
  have pos: "positionX (ps2 ! i) = pulse_x pu" "positionY (ps2 ! i) = pulse_y pu"
    using applyPulses_position [OF len(2), of k now live]
      applyForces_position [OF i, of S rnd 0] x y
    by (simp_all add: ps2_def ps1_def pu_def)
  have same: "applyPulse k now pu ps2 ! i = ps2 ! i"
    using len(1) pos by (simp add: applyPulse_nth pulseOnParticle_origin)
  have without: "particles (stepSimulation S width height rnd now nowTs dtMs st)
      = integrate S width height (dtMs / 1000) ps2"
    by (simp add: stepSimulation_def Let_def cs ps2_def ps1_def live_def k_def)
  have with_pulse: "particles (stepSimulation S width height rnd now nowTs dtMs
        (addPulse S x y str t0 st))
      = integrate S width height (dtMs / 1000)
          (if now - t0 < pulseHalfLifeMs S * 6 then applyPulse k now pu ps2 else ps2)"
    by (simp add: stepSimulation_def Let_def cs addPulse_def ps2_def ps1_def live_def k_def
          pu_def)
  show ?thesis
    using len(1) same by (simp add: without with_pulse integrate_nth)
qed

text \<open>
  Claim C7, amended. A pulse leaves pinned particles alone and adds to a free particle
  the acceleration \<open>(dx, dy) / (r + 1e-6) * strength * decay * falloff\<close>, where
  \<open>(dx, dy)\<close> goes from the pulse's origin to the particle, \<open>r\<close> is its length,
  \<open>decay = exp (- ln 2 / halfLife * age)\<close> and \<open>falloff = exp (- r\<^sup>2 / (2 * sigma\<^sup>2))\<close>.
  Its magnitude is \<open>|strength * decay * falloff| * r / (r + 1e-6)\<close>; for a positive
  strength it points outward, strictly so at every positive distance. At distance zero
  it is zero: a pulse at a particle's exact location does not change that particle in
  the force loop, and in a simulation without constraints one tick leaves the particle
  in the same state with and without the pulse.
\<close>

theorem pulse_force:
  "(i < length ps \<longrightarrow>
   (let p = ps ! i;
        q = applyPulse (ln 2 / halfLife) now pu ps ! i;
        decay = exp (- (ln 2 / halfLife) * (now - createdAt pu));
        dx = positionX p - pulse_x pu;
        dy = positionY p - pulse_y pu;
        r2 = dx * dx + dy * dy;
        falloff = exp (- r2 / (2 * sigma pu * sigma pu));
        m = strength pu * decay * falloff
    in (pinned p \<longrightarrow> q = p)
       \<and> (\<not> pinned p \<longrightarrow>
            q = addForce (dx / (sqrt r2 + 0.000001) * m) (dy / (sqrt r2 + 0.000001) * m) p
          \<and> hypot (accelX q - accelX p) (accelY q - accelY p)
              = \<bar>m\<bar> * (sqrt r2 / (sqrt r2 + 0.000001))
          \<and> (0 \<le> strength pu \<longrightarrow>
                0 \<le> (accelX q - accelX p) * dx + (accelY q - accelY p) * dy)
          \<and> (0 < strength pu \<and> 0 < r2 \<longrightarrow>
                0 < (accelX q - accelX p) * dx + (accelY q - accelY p) * dy))
       \<and> (dx = 0 \<and> dy = 0 \<longrightarrow> q = p)))
   \<and> (j < length (particles st) \<and> constraints st = []
        \<and> positionX (particles st ! j) = x \<and> positionY (particles st ! j) = y \<longrightarrow>
       particles (stepSimulation S width height rnd now' nowTs dtMs (addPulse S x y str t0 st)) ! j
         = particles (stepSimulation S width height rnd now' nowTs dtMs st) ! j)"
  using pulse_on_particle [of i ps halfLife now pu]
    pulse_at_origin_tick [of j st x y S width height rnd now' nowTs dtMs str t0]
  by blast

theorem pulse_force_witness:
  "0 < (accelX (applyPulse (ln 2 / 650) 1000
          \<lparr>pulse_x = 100, pulse_y = 100, strength = 3000, sigma = 90, createdAt = 1000\<rparr>
          [\<lparr>positionX = 103, positionY = 104, previousX = 103, previousY = 104,
            accelX = 0, accelY = 0, pinned = False\<rparr>] ! 0) - 0) * 3
     + (accelY (applyPulse (ln 2 / 650) 1000
          \<lparr>pulse_x = 100, pulse_y = 100, strength = 3000, sigma = 90, createdAt = 1000\<rparr>
          [\<lparr>positionX = 103, positionY = 104, previousX = 103, previousY = 104,
            accelX = 0, accelY = 0, pinned = False\<rparr>] ! 0) - 0) * 4
   \<and> particles (stepSimulation SETTINGS 800 600 midRandom 1000 1000 (1000 / 60)
      (addPulse SETTINGS 100 100 3000 1000
         \<lparr>particles = [\<lparr>positionX = 100, positionY = 100, previousX = 100, previousY = 100,
                         accelX = 0, accelY = 0, pinned = False\<rparr>],
          constraints = [], pulses = []\<rparr>)) ! 0
     = particles (stepSimulation SETTINGS 800 600 midRandom 1000 1000 (1000 / 60)
         \<lparr>particles = [\<lparr>positionX = 100, positionY = 100, previousX = 100, previousY = 100,
                         accelX = 0, accelY = 0, pinned = False\<rparr>],
          constraints = [], pulses = []\<rparr>) ! 0"
proof -
  note inst = pulse_force [where i = 0 and halfLife = 650 and now = 1000
      and pu = "\<lparr>pulse_x = 100, pulse_y = 100, strength = 3000, sigma = 90, createdAt = 1000\<rparr>"
      and ps = "[\<lparr>positionX = 103, positionY = 104, previousX = 103, previousY = 104,
            accelX = 0, accelY = 0, pinned = False\<rparr>]"
      and j = 0 and x = 100 and y = 100 and S = SETTINGS and width = 800 and height = 600
      and rnd = midRandom and now' = 1000 and nowTs = 1000 and dtMs = "1000 / 60"
      and str = 3000 and ?t0.0 = 1000
      and st = "\<lparr>particles = [\<lparr>positionX = 100, positionY = 100, previousX = 100,
                         previousY = 100, accelX = 0, accelY = 0, pinned = False\<rparr>],
          constraints = [], pulses = []\<rparr>"]
  from inst show ?thesis
    unfolding Let_def by (simp add: addForce_def)
qed

subsection \<open>Relaxation of one stretched constraint\<close>

lemma hypot_scale: "hypot (dx * s) (dy * s) = \<bar>s\<bar> * hypot dx dy"
proof -
  have "dx * s * (dx * s) + dy * s * (dy * s) = s\<^sup>2 * (dx * dx + dy * dy)"
    by (simp add: power2_eq_square algebra_simps)
  then show ?thesis
    by (simp add: hypot_def real_sqrt_mult)
qed

lemma addPos_length [simp]: "length (addPos i vx vy ps) = length ps"
  by (simp add: addPos_def)

lemma subPos_length [simp]: "length (subPos i vx vy ps) = length ps"
  by (simp add: subPos_def)

lemma addPos_nth:
  "addPos i vx vy ps ! j =
     (if j = i \<and> i < length ps
      then (ps ! i)\<lparr>positionX := positionX (ps ! i) + vx, positionY := positionY (ps ! i) + vy\<rparr>
      else ps ! j)"
  by (cases "i < length ps") (simp_all add: addPos_def nth_list_update list_update_beyond)

lemma subPos_nth:
  "subPos i vx vy ps ! j =
     (if j = i \<and> i < length ps
      then (ps ! i)\<lparr>positionX := positionX (ps ! i) - vx, positionY := positionY (ps ! i) - vy\<rparr>
      else ps ! j)"
  by (cases "i < length ps") (simp_all add: subPos_def nth_list_update list_update_beyond)

lemma satisfy_stretched_free:
  fixes S nowTs ps c
  defines "d \<equiv> constraintDistance ps c"
  defines "dx \<equiv> positionX (ps ! b_ref c) - positionX (ps ! a_ref c)"
  defines "dy \<equiv> positionY (ps ! b_ref c) - positionY (ps ! a_ref c)"
  defines "mx \<equiv> dx * 0.5 * stiffness c * ((d - rest c) / d)"
  defines "my \<equiv> dy * 0.5 * stiffness c * ((d - rest c) / d)"
  defines "ps1 \<equiv> subPos (b_ref c) (mx * 1) (my * 1) (addPos (a_ref c) (mx * 1) (my * 1) ps)"
  assumes ab: "a_ref c \<noteq> b_ref c" "a_ref c < length ps" "b_ref c < length ps"
    and free: "\<not> pinned (ps ! a_ref c)" "\<not> pinned (ps ! b_ref c)"
    and nb: "\<not> broken c"
    and k: "0 \<le> stiffness c" "stiffness c \<le> 1"
    and rest: "0 < rest c" "rest c \<le> d"
    and below: "d \<le> rest c * getCurrentBreakThreshold nowTs c"
  shows "satisfy S nowTs ps c = (True, ps1, c)"
    and "constraintDistance ps1 c - rest c = (1 - stiffness c) * (d - rest c)"
    and "\<not> pinned (ps1 ! a_ref c)" "\<not> pinned (ps1 ! b_ref c)" "length ps1 = length ps"
proof -
  have d: "hypot dx dy = d"
    by (simp add: d_def dx_def dy_def constraintDistance_def)
  have dpos: "0 < d" using rest by linarith
  then have eps: "orEps (hypot dx dy) = d"
    by (simp add: d orEps_def)
  show sat: "satisfy S nowTs ps c = (True, ps1, c)"
    using nb free below eps dpos
    unfolding satisfy_def Let_def dx_def [symmetric] dy_def [symmetric]
    by (simp add: ps1_def mx_def my_def)
  have a1: "positionX (ps1 ! a_ref c) = positionX (ps ! a_ref c) + mx"
    "positionY (ps1 ! a_ref c) = positionY (ps ! a_ref c) + my"
    using ab by (simp_all add: ps1_def subPos_nth addPos_nth)
  have b1: "positionX (ps1 ! b_ref c) = positionX (ps ! b_ref c) - mx"
    "positionY (ps1 ! b_ref c) = positionY (ps ! b_ref c) - my"
    using ab by (simp_all add: ps1_def subPos_nth addPos_nth)
  define s where "s = 1 - stiffness c * ((d - rest c) / d)"
  have "stiffness c * ((d - rest c) / d) \<le> 1 * ((d - rest c) / d)"
    using k rest dpos by (intro mult_right_mono) simp_all
  also have "\<dots> < 1" using rest dpos by simp
  finally have spos: "0 < s" by (simp add: s_def)
  define q where "q = (d - rest c) / d"
  have m: "mx = dx * 0.5 * stiffness c * q" "my = dy * 0.5 * stiffness c * q" "s = 1 - stiffness c * q"
    by (simp_all add: mx_def my_def s_def q_def)
  have "positionX (ps1 ! b_ref c) - positionX (ps1 ! a_ref c) = dx - 2 * mx"
    by (simp add: a1 b1 dx_def)
  also have "\<dots> = dx * s"
    unfolding m by (simp add: algebra_simps)
  finally have dx1: "positionX (ps1 ! b_ref c) - positionX (ps1 ! a_ref c) = dx * s" .
  have "positionY (ps1 ! b_ref c) - positionY (ps1 ! a_ref c) = dy - 2 * my"
    by (simp add: a1 b1 dy_def)
  also have "\<dots> = dy * s"
    unfolding m by (simp add: algebra_simps)
  finally have dy1: "positionY (ps1 ! b_ref c) - positionY (ps1 ! a_ref c) = dy * s" .
  have "constraintDistance ps1 c = s * d"
    unfolding constraintDistance_def dx1 dy1 hypot_scale d using spos by simp
  also have "\<dots> = d - stiffness c * (d - rest c)"
    using dpos by (simp add: s_def field_simps)
  finally show "constraintDistance ps1 c - rest c = (1 - stiffness c) * (d - rest c)"
    by (simp add: algebra_simps)
  show "\<not> pinned (ps1 ! a_ref c)" "\<not> pinned (ps1 ! b_ref c)" "length ps1 = length ps"
    using ab free by (simp_all add: ps1_def subPos_nth addPos_nth)
qed


lemma relaxLoop_stretched_free:
  assumes ab: "a_ref c \<noteq> b_ref c" "a_ref c < length ps" "b_ref c < length ps"
    and free: "\<not> pinned (ps ! a_ref c)" "\<not> pinned (ps ! b_ref c)"
    and nb: "\<not> broken c"
    and k: "0 \<le> stiffness c" "stiffness c \<le> 1"
    and rest: "0 < rest c" "rest c \<le> constraintDistance ps c"
    and below: "constraintDistance ps c \<le> rest c * getCurrentBreakThreshold nowTs c"
  shows "snd (relaxLoop S nowTs n ps [c]) = [c]
     \<and> constraintDistance (fst (relaxLoop S nowTs n ps [c])) c - rest c
         = (1 - stiffness c) ^ n * (constraintDistance ps c - rest c)"
  using ab free rest below
proof (induction n arbitrary: ps)
  case 0
  show ?case by simp
next
  case (Suc n)
  define d where "d = constraintDistance ps c"
  define dx where "dx = positionX (ps ! b_ref c) - positionX (ps ! a_ref c)"
  define dy where "dy = positionY (ps ! b_ref c) - positionY (ps ! a_ref c)"
  define ps1 where "ps1 = subPos (b_ref c) (dx * 0.5 * stiffness c * ((d - rest c) / d) * 1)
      (dy * 0.5 * stiffness c * ((d - rest c) / d) * 1)
      (addPos (a_ref c) (dx * 0.5 * stiffness c * ((d - rest c) / d) * 1)
         (dy * 0.5 * stiffness c * ((d - rest c) / d) * 1) ps)"
  note one = satisfy_stretched_free [OF Suc.prems(1-5) nb k Suc.prems(6,7,8),
      folded d_def dx_def dy_def, folded ps1_def]
  have gap: "constraintDistance ps1 c - rest c = (1 - stiffness c) * (d - rest c)"
    by (rule one(2))
  have d0: "0 \<le> d - rest c" using Suc.prems(7) by (simp add: d_def)
  have "0 \<le> (1 - stiffness c) * (d - rest c)"
    using k d0 by (intro mult_nonneg_nonneg) simp_all
  then have "0 \<le> constraintDistance ps1 c - rest c"
    by (simp only: gap)
  then have r1: "rest c \<le> constraintDistance ps1 c" by simp
  have "(1 - stiffness c) * (d - rest c) \<le> d - rest c"
    using k d0 by (intro mult_left_le_one_le) simp_all
  then have "constraintDistance ps1 c - rest c \<le> d - rest c"
    by (simp only: gap)
  then have "constraintDistance ps1 c \<le> d" by simp
  with Suc.prems(8) have b1: "constraintDistance ps1 c \<le> rest c * getCurrentBreakThreshold nowTs c"
    by (simp add: d_def)
  have len: "a_ref c < length ps1" "b_ref c < length ps1"
    using one(5) Suc.prems(2,3) by simp_all
  have pass: "relaxPass S nowTs 0 ps [c] = (ps1, [c])"
    using nb one(1) by simp
  have step: "relaxLoop S nowTs (Suc n) ps [c] = relaxLoop S nowTs n ps1 [c]"
    by (simp only: relaxLoop.simps pass prod.case)
  from Suc.IH [OF Suc.prems(1) len one(3,4) Suc.prems(6) r1 b1]
  show ?case
    unfolding step by (simp add: gap d_def mult.assoc)
qed


text \<open>
  Claim C6. Take one constraint between two different free particles, not broken, with
  a stiffness in (0, 1] and a positive rest length, whose length \<open>d\<close> exceeds the rest
  length without exceeding the break limit at \<open>nowTs\<close>. \<^verbatim>\<open>satisfy\<close> returns \<^verbatim>\<open>true\<close>,
  leaves the constraint as it is, and moves endpoint \<open>a\<close> by
  \<open>0.5 * stiffness * (d - rest) / d\<close> times the vector from \<open>a\<close> to \<open>b\<close> and endpoint
  \<open>b\<close> by the opposite vector, after which the gap \<open>distance - rest\<close> is \<open>1 - stiffness\<close>
  times what it was. After \<open>n\<close> passes of the solver's loop over the list holding only
  this constraint the gap is \<open>(1 - stiffness) ^ n\<close> times the first one: its absolute
  value never increases, decreases strictly while it is not zero, and tends to zero.
\<close>

theorem relaxation_convergence:
  assumes ab: "a_ref c \<noteq> b_ref c" "a_ref c < length ps" "b_ref c < length ps"
    and free: "\<not> pinned (ps ! a_ref c)" "\<not> pinned (ps ! b_ref c)"
    and nb: "\<not> broken c"
    and k: "0 < stiffness c" "stiffness c \<le> 1"
    and rest: "0 < rest c" "rest c < constraintDistance ps c"
    and below: "constraintDistance ps c \<le> rest c * getCurrentBreakThreshold nowTs c"
  shows
    "let d = constraintDistance ps c;
         diff = (d - rest c) / d;
         dx = positionX (ps ! b_ref c) - positionX (ps ! a_ref c);
         dy = positionY (ps ! b_ref c) - positionY (ps ! a_ref c);
         gap = (\<lambda>n. constraintDistance (fst (relaxLoop S nowTs n ps [c])) c - rest c)
     in (case satisfy S nowTs ps c of (ok, ps1, c1) \<Rightarrow>
           ok \<and> c1 = c
         \<and> positionX (ps1 ! a_ref c) = positionX (ps ! a_ref c) + dx * 0.5 * stiffness c * diff
         \<and> positionY (ps1 ! a_ref c) = positionY (ps ! a_ref c) + dy * 0.5 * stiffness c * diff
         \<and> positionX (ps1 ! b_ref c) = positionX (ps ! b_ref c) - dx * 0.5 * stiffness c * diff
         \<and> positionY (ps1 ! b_ref c) = positionY (ps ! b_ref c) - dy * 0.5 * stiffness c * diff
         \<and> constraintDistance ps1 c - rest c = (1 - stiffness c) * (d - rest c))
      \<and> relaxPass S nowTs 0 ps [c] = (fst (snd (satisfy S nowTs ps c)), [c])
      \<and> (\<forall>n. snd (relaxLoop S nowTs n ps [c]) = [c]
             \<and> gap n = (1 - stiffness c) ^ n * (d - rest c)
             \<and> \<bar>gap (Suc n)\<bar> \<le> \<bar>gap n\<bar>
             \<and> (gap n \<noteq> 0 \<longrightarrow> \<bar>gap (Suc n)\<bar> < \<bar>gap n\<bar>))
      \<and> (\<lambda>n. \<bar>gap n\<bar>) \<longlonglongrightarrow> 0"
proof -
  define d where "d = constraintDistance ps c"
  define dx where "dx = positionX (ps ! b_ref c) - positionX (ps ! a_ref c)"
  define dy where "dy = positionY (ps ! b_ref c) - positionY (ps ! a_ref c)"
  define diff where "diff = (d - rest c) / d"
  define gap where "gap = (\<lambda>n. constraintDistance (fst (relaxLoop S nowTs n ps [c])) c - rest c)"
  define ps1 where "ps1 = subPos (b_ref c) (dx * 0.5 * stiffness c * diff * 1)
      (dy * 0.5 * stiffness c * diff * 1)
      (addPos (a_ref c) (dx * 0.5 * stiffness c * diff * 1)
         (dy * 0.5 * stiffness c * diff * 1) ps)"
  have k0: "0 \<le> stiffness c" using k by simp
  have r0: "rest c \<le> constraintDistance ps c" using rest by simp
  note one = satisfy_stretched_free [OF ab free nb k0 k(2) rest(1) r0 below,
      folded d_def dx_def dy_def, folded diff_def, folded ps1_def]
  have sat: "satisfy S nowTs ps c = (True, ps1, c)" by (rule one(1))
  have posn: "positionX (ps1 ! a_ref c) = positionX (ps ! a_ref c) + dx * 0.5 * stiffness c * diff"
    "positionY (ps1 ! a_ref c) = positionY (ps ! a_ref c) + dy * 0.5 * stiffness c * diff"
    "positionX (ps1 ! b_ref c) = positionX (ps ! b_ref c) - dx * 0.5 * stiffness c * diff"
    "positionY (ps1 ! b_ref c) = positionY (ps ! b_ref c) - dy * 0.5 * stiffness c * diff"
    using ab by (simp_all add: ps1_def subPos_nth addPos_nth)
  have first: "case satisfy S nowTs ps c of (ok, ps1, c1) \<Rightarrow>
           ok \<and> c1 = c
         \<and> positionX (ps1 ! a_ref c) = positionX (ps ! a_ref c) + dx * 0.5 * stiffness c * diff
         \<and> positionY (ps1 ! a_ref c) = positionY (ps ! a_ref c) + dy * 0.5 * stiffness c * diff
         \<and> positionX (ps1 ! b_ref c) = positionX (ps ! b_ref c) - dx * 0.5 * stiffness c * diff
         \<and> positionY (ps1 ! b_ref c) = positionY (ps ! b_ref c) - dy * 0.5 * stiffness c * diff
         \<and> constraintDistance ps1 c - rest c = (1 - stiffness c) * (d - rest c)"
    unfolding sat prod.case using posn one(2) by simp
  have pass: "relaxPass S nowTs 0 ps [c] = (fst (snd (satisfy S nowTs ps c)), [c])"
    using nb by (simp add: sat)
  have loop: "snd (relaxLoop S nowTs n ps [c]) = [c]"
    and gapn: "gap n = (1 - stiffness c) ^ n * (d - rest c)" for n
    using relaxLoop_stretched_free [OF ab free nb k0 k(2) rest(1) r0 below, of S n]
    by (simp_all add: gap_def d_def)
  define q where "q = 1 - stiffness c"
  have q: "0 \<le> q" "q < 1" using k by (simp_all add: q_def)
  have g0: "0 < d - rest c" using rest by (simp add: d_def)
  have gq: "gap n = q ^ n * (d - rest c)" for n
    by (simp add: gapn q_def)
  have nonneg: "0 \<le> gap n" for n
    unfolding gq using q g0 by simp
  have suc: "gap (Suc n) = q * gap n" for n
    by (simp add: gq)
  have mono: "\<bar>gap (Suc n)\<bar> \<le> \<bar>gap n\<bar>" for n
  proof -
    have "q * gap n \<le> 1 * gap n"
      using q nonneg [of n] by (intro mult_right_mono) simp_all
    then show ?thesis
      using nonneg [of n] nonneg [of "Suc n"] by (simp add: suc)
  qed
  have strict: "\<bar>gap (Suc n)\<bar> < \<bar>gap n\<bar>" if "gap n \<noteq> 0" for n
  proof -
    from that nonneg [of n] have "0 < gap n" by simp
    then have "q * gap n < 1 * gap n"
      using q by (intro mult_strict_right_mono) simp_all
    then show ?thesis
      using nonneg [of n] nonneg [of "Suc n"] by (simp add: suc)
  qed
  have "(\<lambda>n. q ^ n) \<longlonglongrightarrow> 0"
    using q by (rule LIMSEQ_realpow_zero)
  then have "(\<lambda>n. q ^ n * (d - rest c)) \<longlonglongrightarrow> 0 * (d - rest c)"
    by (intro tendsto_mult tendsto_const)
  then have "(\<lambda>n. gap n) \<longlonglongrightarrow> 0"
    by (simp add: gq)
  then have lim: "(\<lambda>n. \<bar>gap n\<bar>) \<longlonglongrightarrow> 0"
    by (simp add: tendsto_rabs_zero_iff)
  have "(case satisfy S nowTs ps c of (ok, ps1, c1) \<Rightarrow>
           ok \<and> c1 = c
         \<and> positionX (ps1 ! a_ref c) = positionX (ps ! a_ref c) + dx * 0.5 * stiffness c * diff
         \<and> positionY (ps1 ! a_ref c) = positionY (ps ! a_ref c) + dy * 0.5 * stiffness c * diff
         \<and> positionX (ps1 ! b_ref c) = positionX (ps ! b_ref c) - dx * 0.5 * stiffness c * diff
         \<and> positionY (ps1 ! b_ref c) = positionY (ps ! b_ref c) - dy * 0.5 * stiffness c * diff
         \<and> constraintDistance ps1 c - rest c = (1 - stiffness c) * (d - rest c))
      \<and> relaxPass S nowTs 0 ps [c] = (fst (snd (satisfy S nowTs ps c)), [c])
      \<and> (\<forall>n. snd (relaxLoop S nowTs n ps [c]) = [c]
             \<and> gap n = (1 - stiffness c) ^ n * (d - rest c)
             \<and> \<bar>gap (Suc n)\<bar> \<le> \<bar>gap n\<bar>
             \<and> (gap n \<noteq> 0 \<longrightarrow> \<bar>gap (Suc n)\<bar> < \<bar>gap n\<bar>))
      \<and> (\<lambda>n. \<bar>gap n\<bar>) \<longlonglongrightarrow> 0"
    using first pass loop gapn mono strict lim by blast
  then show ?thesis
    unfolding Let_def gap_def diff_def dx_def dy_def d_def .
qed


theorem relaxation_convergence_witness:
  "rest (DistanceConstraint SETTINGS 0 1 10 0.35)
     < constraintDistance
         [Particle 100 100 False 0.5 0.5, Particle 112 100 False 0.5 0.5]
         (DistanceConstraint SETTINGS 0 1 10 0.35)
   \<and> constraintDistance
         [Particle 100 100 False 0.5 0.5, Particle 112 100 False 0.5 0.5]
         (DistanceConstraint SETTINGS 0 1 10 0.35)
       \<le> rest (DistanceConstraint SETTINGS 0 1 10 0.35)
           * getCurrentBreakThreshold 0 (DistanceConstraint SETTINGS 0 1 10 0.35)
   \<and> constraintDistance
         (fst (relaxLoop SETTINGS 0 3
            [Particle 100 100 False 0.5 0.5, Particle 112 100 False 0.5 0.5]
            [DistanceConstraint SETTINGS 0 1 10 0.35]))
         (DistanceConstraint SETTINGS 0 1 10 0.35) - 10
       = 0.65 ^ 3 * 2"
proof -
  let ?ps = "[Particle 100 100 False 0.5 0.5, Particle 112 100 False 0.5 0.5]"
  let ?c = "DistanceConstraint SETTINGS 0 1 10 0.35"
  have d: "constraintDistance ?ps ?c = 12"
    by (simp add: constraintDistance_def Particle_def hypot_axis)
  have T: "getCurrentBreakThreshold 0 ?c = 1.8"
    by (simp add: getCurrentBreakThreshold_def SETTINGS_def)
  have ab: "a_ref ?c \<noteq> b_ref ?c" "a_ref ?c < length ?ps" "b_ref ?c < length ?ps"
    by simp_all
  have free: "\<not> pinned (?ps ! a_ref ?c)" "\<not> pinned (?ps ! b_ref ?c)"
    by (simp_all add: Particle_def)
  have nb: "\<not> broken ?c" by simp
  have k: "0 < stiffness ?c" "stiffness ?c \<le> 1" by simp_all
  have rest: "0 < rest ?c" "rest ?c < constraintDistance ?ps ?c"
    unfolding d by simp_all
  have below: "constraintDistance ?ps ?c \<le> rest ?c * getCurrentBreakThreshold 0 ?c"
    unfolding d T by simp
  from relaxation_convergence [OF ab free nb k rest below, of SETTINGS]
  have "constraintDistance (fst (relaxLoop SETTINGS 0 3 ?ps [?c])) ?c - rest ?c
      = (1 - stiffness ?c) ^ 3 * (constraintDistance ?ps ?c - rest ?c)"
    unfolding Let_def by blast
  then have "constraintDistance (fst (relaxLoop SETTINGS 0 3 ?ps [?c])) ?c - 10 = 0.65 ^ 3 * 2"
    unfolding d by simp
  with rest(2) below show ?thesis by blast
qed

subsection \<open>Pinned particles stay where they are\<close>

lemma forceBreak_length [simp]: "length (fst (forceBreak S ps c)) = length ps"
  by (simp add: forceBreak_def Let_def)

lemma forceBreak_pinned:
  "pinned (ps ! i) \<Longrightarrow> fst (forceBreak S ps c) ! i = ps ! i"
  by (auto simp: forceBreak_def Let_def subPos_nth addPos_nth)

lemma satisfy_length [simp]: "length (fst (snd (satisfy S nowTs ps c))) = length ps"
  by (simp add: satisfy_def Let_def case_prod_unfold)

lemma satisfy_pinned:
  "pinned (ps ! i) \<Longrightarrow> fst (snd (satisfy S nowTs ps c)) ! i = ps ! i"
  by (auto simp: satisfy_def Let_def case_prod_unfold forceBreak_pinned subPos_nth addPos_nth)

lemma relaxPass_pinned:
  "pinned (ps ! i) \<Longrightarrow>
   length (fst (relaxPass S nowTs b ps cs)) = length ps \<and> fst (relaxPass S nowTs b ps cs) ! i = ps ! i"
proof (induction cs arbitrary: b ps)
  case Nil
  show ?case by simp
next
  case (Cons c cs)
  obtain ok ps1 c1 where s: "satisfy S nowTs ps c = (ok, ps1, c1)"
    by (rule prod_cases3)
  have ps1: "length ps1 = length ps" "ps1 ! i = ps ! i"
    using satisfy_length [of S nowTs ps c] satisfy_pinned [OF Cons.prems, of S nowTs c]
    by (simp_all add: s)
  then have p1: "pinned (ps1 ! i)" using Cons.prems by simp
  show ?case
    using Cons.IH [OF Cons.prems, of b] Cons.IH [OF p1, of b] Cons.IH [OF p1, of "b + 1"] ps1
    by (simp add: s case_prod_unfold)
qed

lemma relaxLoop_pinned:
  "pinned (ps ! i) \<Longrightarrow>
   length (fst (relaxLoop S nowTs n ps cs)) = length ps \<and> fst (relaxLoop S nowTs n ps cs) ! i = ps ! i"
proof (induction n arbitrary: ps cs)
  case 0
  show ?case by simp
next
  case (Suc n)
  obtain ps1 cs1 where r: "relaxPass S nowTs 0 ps cs = (ps1, cs1)"
    by (cases "relaxPass S nowTs 0 ps cs")
  from relaxPass_pinned [OF Suc.prems, of S nowTs 0 cs]
  have one: "length ps1 = length ps" "ps1 ! i = ps ! i"
    by (simp_all add: r)
  with Suc.prems have "pinned (ps1 ! i)" by simp
  from Suc.IH [OF this, of cs1] show ?case
    by (simp add: r one)
qed

text \<open>
  In a whole step the two clamps follow the Verlet step for every particle, pinned or
  not. They keep a pinned particle where it is when it lies in the canvas inset by the
  border padding.
\<close>

lemma stepSimulation_pinned:
  assumes i: "i < length (particles st)" and pin: "pinned (particles st ! i)"
    and inX: "borderPadding S \<le> positionX (particles st ! i)"
      "positionX (particles st ! i) \<le> width - borderPadding S"
    and inY: "borderPadding S \<le> positionY (particles st ! i)"
      "positionY (particles st ! i) \<le> height - borderPadding S"
  shows "length (particles (stepSimulation S width height rnd now nowTs dtMs st))
           = length (particles st)
       \<and> pinned (particles (stepSimulation S width height rnd now nowTs dtMs st) ! i)
       \<and> positionX (particles (stepSimulation S width height rnd now nowTs dtMs st) ! i)
           = positionX (particles st ! i)
       \<and> positionY (particles (stepSimulation S width height rnd now nowTs dtMs st) ! i)
           = positionY (particles st ! i)"
proof -
  define k where "k = ln 2 / pulseHalfLifeMs S"
  define ps1 where "ps1 = applyForces S rnd 0 (particles st)"
  define live where "live = filter (\<lambda>pu. now - createdAt pu < pulseHalfLifeMs S * 6) (pulses st)"
  define ps2 where "ps2 = foldl (\<lambda>ps pu. applyPulse k now pu ps) ps1 live"
  define ps3 where "ps3 = integrate S width height (dtMs / 1000) ps2"
  have len: "i < length ps1" "i < length ps2" "i < length ps3"
    using i by (simp_all add: ps1_def ps2_def ps3_def)
  have p1: "positionX (ps1 ! i) = positionX (particles st ! i)"
    "positionY (ps1 ! i) = positionY (particles st ! i)" "pinned (ps1 ! i)"
    using applyForces_position [OF i, of S rnd 0] pin by (simp_all add: ps1_def)
  have pin2: "pinned (foldl (\<lambda>ps pu. applyPulse k now pu ps) ps pus ! i)"
    if "i < length ps" "pinned (ps ! i)" for ps pus
    using that by (induction pus arbitrary: ps) (simp_all add: applyPulse_nth)
  have p2: "positionX (ps2 ! i) = positionX (particles st ! i)"
    "positionY (ps2 ! i) = positionY (particles st ! i)" "pinned (ps2 ! i)"
    using applyPulses_position [OF len(1), of k now live] p1 pin2 [OF len(1) p1(3), of live]
    by (simp_all add: ps2_def)
  have p3: "positionX (ps3 ! i) = positionX (particles st ! i)"
    "positionY (ps3 ! i) = positionY (particles st ! i)" "pinned (ps3 ! i)"
    using len(2) p2 inX inY
    by (simp_all add: ps3_def integrate_nth clampToCanvas_def verletStep_def clamp_def)
  have res: "particles (stepSimulation S width height rnd now nowTs dtMs st)
      = fst (relaxLoop S nowTs (nat (constraintIterations S)) ps3 (constraints st))"
    by (simp add: stepSimulation_def Let_def case_prod_unfold ps3_def ps2_def ps1_def
          live_def k_def)
  from relaxLoop_pinned [OF p3(3), of S nowTs "nat (constraintIterations S)" "constraints st"]
  show ?thesis
    using p3 i by (simp add: res ps3_def ps2_def ps1_def)
qed

text \<open>
  On a canvas at least twice the border padding wide and high, with at least two
  columns and two rows, \<^verbatim>\<open>buildGrid\<close> puts every particle inside the inset rectangle.
\<close>

lemma gridParticles_in_bounds:
  assumes cols: "2 \<le> gridCols S" and rows: "2 \<le> gridRows S"
    and w: "2 * borderPadding S \<le> width" and h: "2 * borderPadding S \<le> height"
    and p: "p \<in> set (gridParticles S width height rnd)"
  shows "borderPadding S \<le> positionX p \<and> positionX p \<le> width - borderPadding S
       \<and> borderPadding S \<le> positionY p \<and> positionY p \<le> height - borderPadding S"
proof -
  have frac: "0 \<le> real_of_int i * (g / real_of_int (n - 1))
      \<and> real_of_int i * (g / real_of_int (n - 1)) \<le> g"
    if "0 \<le> i" "i \<le> n - 1" "2 \<le> n" "0 \<le> g" for i n :: int and g :: real
  proof -
    have n1: "0 < real_of_int (n - 1)" using that(3) by simp
    have "real_of_int i * (g / real_of_int (n - 1)) = (real_of_int i / real_of_int (n - 1)) * g"
      by simp
    moreover have "0 \<le> real_of_int i / real_of_int (n - 1)"
      using that(1) n1 by simp
    moreover have "real_of_int i / real_of_int (n - 1) \<le> 1"
      using that(2) n1 by simp
    ultimately show ?thesis
      using that(4) by (simp add: mult_left_le_one_le del: times_divide_eq_left times_divide_eq_right)
  qed
  from p obtain i j where ij: "0 \<le> i" "i \<le> gridCols S - 1" "0 \<le> j" "j \<le> gridRows S - 1"
    and px: "positionX p = borderPadding S
        + real_of_int i * ((width - borderPadding S * 2) / real_of_int (gridCols S - 1))"
    and py: "positionY p = borderPadding S
        + real_of_int j * ((height - borderPadding S * 2) / real_of_int (gridRows S - 1))"
    by (auto simp: gridParticles_def Let_def Particle_def)
  from frac [OF ij(1,2) cols, of "width - borderPadding S * 2"]
    frac [OF ij(3,4) rows, of "height - borderPadding S * 2"] w h
  show ?thesis
    unfolding px py by simp
qed

text \<open>
  Wherever a pinned particle lies, the clamps decide: whatever the forces, pulses and
  constraints of a step are, it ends the step at the clamp of its position.
\<close>

lemma integrate_pinned:
  assumes "i < length ps" and "pinned (ps ! i)"
  shows "pinned (integrate S width height dt ps ! i)
       \<and> positionX (integrate S width height dt ps ! i)
           = clamp (positionX (ps ! i)) (borderPadding S) (width - borderPadding S)
       \<and> positionY (integrate S width height dt ps ! i)
           = clamp (positionY (ps ! i)) (borderPadding S) (height - borderPadding S)"
  using assms by (simp add: integrate_nth clampToCanvas_def verletStep_def)

lemma stepSimulation_pinned_clamp:
  assumes i: "i < length (particles st)" and pin: "pinned (particles st ! i)"
  shows "pinned (particles (stepSimulation S width height rnd now nowTs dtMs st) ! i)
       \<and> positionX (particles (stepSimulation S width height rnd now nowTs dtMs st) ! i)
           = clamp (positionX (particles st ! i)) (borderPadding S) (width - borderPadding S)
       \<and> positionY (particles (stepSimulation S width height rnd now nowTs dtMs st) ! i)
           = clamp (positionY (particles st ! i)) (borderPadding S) (height - borderPadding S)"
proof -
  define k where "k = ln 2 / pulseHalfLifeMs S"
  define ps1 where "ps1 = applyForces S rnd 0 (particles st)"
  define live where "live = filter (\<lambda>pu. now - createdAt pu < pulseHalfLifeMs S * 6) (pulses st)"
  define ps2 where "ps2 = foldl (\<lambda>ps pu. applyPulse k now pu ps) ps1 live"
  have len: "i < length ps1" "i < length ps2"
    using i by (simp_all add: ps1_def ps2_def)
  have p1: "positionX (ps1 ! i) = positionX (particles st ! i)"
    "positionY (ps1 ! i) = positionY (particles st ! i)" "pinned (ps1 ! i)"
    using applyForces_position [OF i, of S rnd 0] pin by (simp_all add: ps1_def)
  have pin2: "pinned (foldl (\<lambda>ps pu. applyPulse k now pu ps) ps pus ! i)"
    if "i < length ps" "pinned (ps ! i)" for ps pus
    using that by (induction pus arbitrary: ps) (simp_all add: applyPulse_nth)
  have p2: "positionX (ps2 ! i) = positionX (particles st ! i)"
    "positionY (ps2 ! i) = positionY (particles st ! i)" "pinned (ps2 ! i)"
    using applyPulses_position [OF len(1), of k now live] p1 pin2 [OF len(1) p1(3), of live]
    by (simp_all add: ps2_def)
  have inp: "relaxInput S width height rnd now dtMs st = integrate S width height (dtMs / 1000) ps2"
    by (simp add: relaxInput_def ps2_def ps1_def live_def k_def)
  note p3 = integrate_pinned [OF len(2) p2(3), of S width height "dtMs / 1000", folded inp]
  from p3 have pin3: "pinned (relaxInput S width height rnd now dtMs st ! i)" by simp
  from relaxLoop_pinned [OF pin3, of S nowTs "nat (constraintIterations S)" "constraints st"]
    stepSimulation_solver [of S width height rnd now nowTs dtMs st]
  have "particles (stepSimulation S width height rnd now nowTs dtMs st) ! i
      = relaxInput S width height rnd now dtMs st ! i"
    by simp
  with p3 p2 show ?thesis by simp
qed

lemma gridParticles_first:
  assumes "1 \<le> gridCols S" and "1 \<le> gridRows S"
  shows "0 < length (gridParticles S width height rnd)
       \<and> gridParticles S width height rnd ! 0
           = Particle (borderPadding S) (borderPadding S) True (rnd 0) (rnd 1)"
proof -
  have c: "[0..gridCols S - 1] = 0 # [1..gridCols S - 1]"
    using assms(1) by (simp add: upto_rec1)
  have r: "[0..gridRows S - 1] = 0 # [1..gridRows S - 1]"
    using assms(2) by (simp add: upto_rec1)
  show ?thesis
    unfolding gridParticles_def Let_def c r by simp
qed

lemma applyOp_pinned:
  assumes i: "i < length (particles st)" and pin: "pinned (particles st ! i)"
    and inX: "borderPadding S \<le> positionX (particles st ! i)"
      "positionX (particles st ! i) \<le> width - borderPadding S"
    and inY: "borderPadding S \<le> positionY (particles st ! i)"
      "positionY (particles st ! i) \<le> height - borderPadding S"
  shows "length (particles (applyOp S width height op st)) = length (particles st)
       \<and> pinned (particles (applyOp S width height op st) ! i)
       \<and> positionX (particles (applyOp S width height op st) ! i) = positionX (particles st ! i)
       \<and> positionY (particles (applyOp S width height op st) ! i) = positionY (particles st ! i)"
proof (cases op)
  case (StepOp rnd now nowTs dtMs)
  with stepSimulation_pinned [OF assms, of rnd now nowTs dtMs] show ?thesis by simp
next
  case (IntegrateOp dtSec)
  with integrate_pinned [OF i pin, of S width height dtSec] inX inY show ?thesis
    by (simp add: clamp_def)
next
  case (VerletOp dt dmp)
  with i pin show ?thesis by (simp add: verletStep_def)
next
  case (RelaxOp nowTs)
  with relaxPass_pinned [OF pin, of S nowTs 0 "constraints st"] pin show ?thesis
    by (simp add: case_prod_unfold)
next
  case (BreakOp j)
  with forceBreak_pinned [OF pin, of S "constraints st ! j"]
    forceBreak_length [of S "particles st" "constraints st ! j"] pin
  show ?thesis by (simp add: case_prod_unfold)
next
  case (PulseOp x y str now)
  with pin show ?thesis by (simp add: addPulse_def)
qed

lemma applyOps_pinned:
  assumes "i < length (particles st)" and "pinned (particles st ! i)"
    and "borderPadding S \<le> positionX (particles st ! i)"
      "positionX (particles st ! i) \<le> width - borderPadding S"
    and "borderPadding S \<le> positionY (particles st ! i)"
      "positionY (particles st ! i) \<le> height - borderPadding S"
  shows "length (particles (applyOps S width height ops st)) = length (particles st)
       \<and> pinned (particles (applyOps S width height ops st) ! i)
       \<and> positionX (particles (applyOps S width height ops st) ! i) = positionX (particles st ! i)
       \<and> positionY (particles (applyOps S width height ops st) ! i) = positionY (particles st ! i)"
  using assms
proof (induction ops arbitrary: st)
  case Nil
  then show ?case by simp
next
  case (Cons op ops)
  define st1 where "st1 = applyOp S width height op st"
  from applyOp_pinned [OF Cons.prems, of op]
  have one: "length (particles st1) = length (particles st)" "pinned (particles st1 ! i)"
    "positionX (particles st1 ! i) = positionX (particles st ! i)"
    "positionY (particles st1 ! i) = positionY (particles st ! i)"
    by (simp_all add: st1_def)
  have pre: "i < length (particles st1)"
    "borderPadding S \<le> positionX (particles st1 ! i)"
    "positionX (particles st1 ! i) \<le> width - borderPadding S"
    "borderPadding S \<le> positionY (particles st1 ! i)"
    "positionY (particles st1 ! i) \<le> height - borderPadding S"
    using Cons.prems one by simp_all
  from Cons.IH [OF pre(1) one(2) pre(2-5)] show ?case
    by (simp add: st1_def [symmetric] one)
qed

text \<open>
  Claim C4, as stated, fails: the integration loop clamps every particle, pinned or
  not. A pinned particle at (10, 10) on a canvas of 800 by 600 is at (24, 24) after the
  integration loop and after a whole step. The same happens to a lattice as
  \<^verbatim>\<open>buildGrid\<close> builds it when the canvas is narrower than twice the border padding: on
  a canvas of 40 by 40 the first particle is pinned at (24, 24), and the first step
  moves it to (16, 16).
\<close>

theorem pinned_invariance_counterexample:
  "pinned \<lparr>positionX = 10, positionY = 10, previousX = 10, previousY = 10,
           accelX = 0, accelY = 0, pinned = True\<rparr>
   \<and> positionX (integrate SETTINGS 800 600 (1 / 60)
        [\<lparr>positionX = 10, positionY = 10, previousX = 10, previousY = 10,
          accelX = 0, accelY = 0, pinned = True\<rparr>] ! 0) = 24
   \<and> positionX (particles (stepSimulation SETTINGS 800 600 midRandom 0 0 (1000 / 60)
        \<lparr>particles = [\<lparr>positionX = 10, positionY = 10, previousX = 10, previousY = 10,
                        accelX = 0, accelY = 0, pinned = True\<rparr>],
         constraints = [], pulses = []\<rparr>) ! 0) = 24
   \<and> pinned (gridParticles SETTINGS 40 40 midRandom ! 0)
   \<and> positionX (gridParticles SETTINGS 40 40 midRandom ! 0) = 24
   \<and> positionY (gridParticles SETTINGS 40 40 midRandom ! 0) = 24
   \<and> positionX (particles (stepSimulation SETTINGS 40 40 midRandom 0 0 (1000 / 60)
        \<lparr>particles = gridParticles SETTINGS 40 40 midRandom,
         constraints = gridConstraints SETTINGS 40 40, pulses = []\<rparr>) ! 0) = 16
   \<and> positionY (particles (stepSimulation SETTINGS 40 40 midRandom 0 0 (1000 / 60)
        \<lparr>particles = gridParticles SETTINGS 40 40 midRandom,
         constraints = gridConstraints SETTINGS 40 40, pulses = []\<rparr>) ! 0) = 16"
proof -
  let ?p = "\<lparr>positionX = 10, positionY = 10, previousX = 10, previousY = 10,
           accelX = 0, accelY = 0, pinned = True\<rparr>"
  let ?st = "\<lparr>particles = gridParticles SETTINGS 40 40 midRandom,
         constraints = gridConstraints SETTINGS 40 40, pulses = []\<rparr>"
  have one: "positionX (integrate SETTINGS 800 600 (1 / 60) [?p] ! 0) = 24"
    by (simp add: integrate_def clampToCanvas_def verletStep_def clamp_def SETTINGS_def)
  have two: "positionX (particles (stepSimulation SETTINGS 800 600 midRandom 0 0 (1000 / 60)
        \<lparr>particles = [?p], constraints = [], pulses = []\<rparr>) ! 0) = 24"
    using stepSimulation_pinned_clamp [of 0 "\<lparr>particles = [?p], constraints = [], pulses = []\<rparr>"
        SETTINGS 800 600 midRandom 0 0 "1000 / 60"]
    by (simp add: clamp_def SETTINGS_def)
  have dims: "1 \<le> gridCols SETTINGS" "1 \<le> gridRows SETTINGS"
    by (simp_all add: SETTINGS_def)
  note first = gridParticles_first [OF dims, of 40 40 midRandom]
  have p0: "pinned (gridParticles SETTINGS 40 40 midRandom ! 0)"
    "positionX (gridParticles SETTINGS 40 40 midRandom ! 0) = 24"
    "positionY (gridParticles SETTINGS 40 40 midRandom ! 0) = 24"
    using first by (simp_all add: Particle_def SETTINGS_def)
  have i: "0 < length (particles ?st)" using first by simp
  have pin: "pinned (particles ?st ! 0)" using p0(1) by simp
  from stepSimulation_pinned_clamp [OF i pin, of SETTINGS 40 40 midRandom 0 0 "1000 / 60"]
  have three: "positionX (particles (stepSimulation SETTINGS 40 40 midRandom 0 0 (1000 / 60) ?st) ! 0) = 16"
    "positionY (particles (stepSimulation SETTINGS 40 40 midRandom 0 0 (1000 / 60) ?st) ! 0) = 16"
    using p0 by (simp_all add: clamp_def SETTINGS_def)
  from one two p0 three show ?thesis by simp
qed

text \<open>
  Claim C4, amended. A pinned particle that lies in the canvas inset by the border
  padding keeps its position and stays pinned through any sequence, in any order and of
  any length, of whole steps, runs of the integration loop, Verlet steps, solver passes,
  \<^verbatim>\<open>forceBreak\<close> calls and new pulses. The Verlet step leaves a pinned particle's position
  as it is, and inside the inset rectangle so do the clamps that follow it; \<^verbatim>\<open>satisfy\<close>
  and a whole pass leave every pinned particle of the store untouched, and so does
  \<^verbatim>\<open>forceBreak\<close>, which changes nothing in the store when both endpoints are pinned.
\<close>

theorem pinned_invariance:
  assumes "i < length (particles st)" and "pinned (particles st ! i)"
    and "borderPadding S \<le> positionX (particles st ! i)"
      "positionX (particles st ! i) \<le> width - borderPadding S"
    and "borderPadding S \<le> positionY (particles st ! i)"
      "positionY (particles st ! i) \<le> height - borderPadding S"
  shows "length (particles (applyOps S width height ops st)) = length (particles st)
       \<and> pinned (particles (applyOps S width height ops st) ! i)
       \<and> positionX (particles (applyOps S width height ops st) ! i) = positionX (particles st ! i)
       \<and> positionY (particles (applyOps S width height ops st) ! i) = positionY (particles st ! i)
       \<and> positionX (verletStep dtSeconds dmp (particles st ! i)) = positionX (particles st ! i)
       \<and> positionY (verletStep dtSeconds dmp (particles st ! i)) = positionY (particles st ! i)
       \<and> positionX (integrate S width height dtSeconds (particles st) ! i)
           = positionX (particles st ! i)
       \<and> positionY (integrate S width height dtSeconds (particles st) ! i)
           = positionY (particles st ! i)
       \<and> fst (snd (satisfy S nowTs (particles st) c)) ! i = particles st ! i
       \<and> fst (relaxPass S nowTs 0 (particles st) cs) ! i = particles st ! i
       \<and> fst (forceBreak S (particles st) c) ! i = particles st ! i
       \<and> (pinned (particles st ! a_ref c) \<and> pinned (particles st ! b_ref c) \<longrightarrow>
            fst (forceBreak S (particles st) c) = particles st)"
proof -
  have both: "fst (forceBreak S (particles st) c) = particles st"
    if "pinned (particles st ! a_ref c) \<and> pinned (particles st ! b_ref c)"
    using that by (simp add: forceBreak_def Let_def)
  show ?thesis
    using applyOps_pinned [OF assms, of ops]
      integrate_pinned [OF assms(1,2), of S width height dtSeconds] assms(3-6)
      satisfy_pinned [OF assms(2), of S nowTs c]
      relaxPass_pinned [OF assms(2), of S nowTs 0 cs] forceBreak_pinned [OF assms(2), of S c]
      assms(2) both
    by (simp add: verletStep_def clamp_def)
qed

theorem pinned_invariance_witness:
  "pinned (particles \<lparr>particles = [Particle 24 24 True 0.5 0.5, Particle 64 24 False 0.5 0.5],
       constraints = [DistanceConstraint SETTINGS 0 1 10 0.35], pulses = []\<rparr> ! 0)
   \<and> positionX (particles (applyOps SETTINGS 800 600
        [PulseOp 30 30 3000 0, StepOp midRandom 0 0 (1000 / 60), IntegrateOp (1 / 60),
         VerletOp (1 / 60) 0.0035, RelaxOp 0, BreakOp 0, StepOp midRandom 17 17 (1000 / 60)]
        \<lparr>particles = [Particle 24 24 True 0.5 0.5, Particle 64 24 False 0.5 0.5],
         constraints = [DistanceConstraint SETTINGS 0 1 10 0.35], pulses = []\<rparr>) ! 0) = 24
   \<and> positionY (particles (applyOps SETTINGS 800 600
        [PulseOp 30 30 3000 0, StepOp midRandom 0 0 (1000 / 60), IntegrateOp (1 / 60),
         VerletOp (1 / 60) 0.0035, RelaxOp 0, BreakOp 0, StepOp midRandom 17 17 (1000 / 60)]
        \<lparr>particles = [Particle 24 24 True 0.5 0.5, Particle 64 24 False 0.5 0.5],
         constraints = [DistanceConstraint SETTINGS 0 1 10 0.35], pulses = []\<rparr>) ! 0) = 24"
proof -
  let ?st = "\<lparr>particles = [Particle 24 24 True 0.5 0.5, Particle 64 24 False 0.5 0.5],
       constraints = [DistanceConstraint SETTINGS 0 1 10 0.35], pulses = []\<rparr>"
  have i: "0 < length (particles ?st)" by simp
  have pin: "pinned (particles ?st ! 0)" by (simp add: Particle_def)
  have pos: "positionX (particles ?st ! 0) = 24" "positionY (particles ?st ! 0) = 24"
    by (simp_all add: Particle_def)
  have inX: "borderPadding SETTINGS \<le> positionX (particles ?st ! 0)"
    "positionX (particles ?st ! 0) \<le> 800 - borderPadding SETTINGS"
    unfolding pos by (simp_all add: SETTINGS_def)
  have inY: "borderPadding SETTINGS \<le> positionY (particles ?st ! 0)"
    "positionY (particles ?st ! 0) \<le> 600 - borderPadding SETTINGS"
    unfolding pos by (simp_all add: SETTINGS_def)
  from pinned_invariance [OF i pin inX inY, of
      "[PulseOp 30 30 3000 0, StepOp midRandom 0 0 (1000 / 60), IntegrateOp (1 / 60),
         VerletOp (1 / 60) 0.0035, RelaxOp 0, BreakOp 0, StepOp midRandom 17 17 (1000 / 60)]"]
  show ?thesis
    unfolding pos using pin by blast
qed

end
